theory Spec2Isabelle
  imports Main "HOL-Library.Word"
begin

unbundle bit_operations_syntax

section \<open>Register access (main.c)\<close>

type_synonym u32 = "32 word"

text \<open>
  \<^verbatim>\<open>MMIO32(addr)\<close> is a volatile 32-bit access: every read and write is emitted exactly
  once, in program order. An access is therefore an event, and a routine's effect on the
  hardware is the list of events it appends to the trace, oldest first.
\<close>

datatype mmio = MWrite u32 u32 | MRead u32 u32

definition RESETS_BASE :: u32 where "RESETS_BASE = 0x4000C000"
definition RESETS_RESET :: u32 where "RESETS_RESET = RESETS_BASE + 0x000"
definition RESETS_RESET_CLR :: u32 where "RESETS_RESET_CLR = RESETS_BASE + 0x3000"
definition RESETS_RESET_DONE :: u32 where "RESETS_RESET_DONE = RESETS_BASE + 0x008"

definition RESET_IO_BANK0 :: u32 where "RESET_IO_BANK0 = push_bit 5 1"
definition RESET_PADS_BANK0 :: u32 where "RESET_PADS_BANK0 = push_bit 8 1"

definition PADS_BANK0_BASE :: u32 where "PADS_BANK0_BASE = 0x4001C000"
definition PADS_GPIO25 :: u32 where "PADS_GPIO25 = PADS_BANK0_BASE + 0x068"

definition IO_BANK0_BASE :: u32 where "IO_BANK0_BASE = 0x40014000"
definition GPIO25_CTRL :: u32 where "GPIO25_CTRL = IO_BANK0_BASE + 0x0CC"

definition FUNCSEL_SIO :: u32 where "FUNCSEL_SIO = 5"

definition SIO_BASE :: u32 where "SIO_BASE = 0xD0000000"
definition GPIO_OUT_XOR :: u32 where "GPIO_OUT_XOR = SIO_BASE + 0x01C"
definition GPIO_OE_SET :: u32 where "GPIO_OE_SET = SIO_BASE + 0x024"

definition SYST_CSR :: u32 where "SYST_CSR = 0xE000E010"
definition SYST_RVR :: u32 where "SYST_RVR = 0xE000E014"
definition SYST_CVR :: u32 where "SYST_CVR = 0xE000E018"

definition LED_PIN :: nat where "LED_PIN = 25"
definition LED_MASK :: u32 where "LED_MASK = push_bit LED_PIN 1"

section \<open>Program state (main.c)\<close>

text \<open>
  The only C variable of main.c is \<^verbatim>\<open>static volatile uint32_t tick_count = 0\<close>.
  The state of the program is that counter together with the trace of register accesses
  made so far.
\<close>

record machine =
  tick_count :: u32
  trace :: "mmio list"

definition mmio_write :: "u32 \<Rightarrow> u32 \<Rightarrow> machine \<Rightarrow> machine" where
  "mmio_write a v s = s\<lparr>trace := trace s @ [MWrite a v]\<rparr>"

text \<open>The state in which \<^verbatim>\<open>main\<close> is entered: the counter holds its initialiser.\<close>

definition boot_state :: machine where
  "boot_state = \<lparr>tick_count = 0, trace = []\<rparr>"

subsection \<open>The periodic timer ISR\<close>

text \<open>
  \<^verbatim>\<open>
  void SysTick_Handler(void) {
      tick_count++;
      if ((tick_count % 500) == 0) {
          GPIO_OUT_XOR = LED_MASK;
      }
  }
  \<close>
  The increment is on \<^verbatim>\<open>uint32_t\<close> and wraps; \<^verbatim>\<open>%\<close> is the unsigned remainder.
\<close>

definition SysTick_Handler :: "machine \<Rightarrow> machine" where
  "SysTick_Handler s =
     (let s1 = s\<lparr>tick_count := tick_count s + 1\<rparr>
      in if tick_count s1 mod 500 = 0 then mmio_write GPIO_OUT_XOR LED_MASK s1 else s1)"

text \<open>The number of times the LED pin was toggled: the writes of the LED mask to the
  toggle register that the trace holds.\<close>

definition toggles :: "machine \<Rightarrow> nat" where
  "toggles s = length (filter (\<lambda>e. e = MWrite GPIO_OUT_XOR LED_MASK) (trace s))"

definition mmio_read :: "u32 \<Rightarrow> u32 \<Rightarrow> machine \<Rightarrow> machine" where
  "mmio_read a v s = s\<lparr>trace := trace s @ [MRead a v]\<rparr>"

subsection \<open>Peripheral initialisation\<close>

text \<open>
  \<^verbatim>\<open>
  static void resets_init(void) {
      RESETS_RESET_CLR = RESET_IO_BANK0 | RESET_PADS_BANK0;
      while ((RESETS_RESET_DONE & (RESET_IO_BANK0 | RESET_PADS_BANK0))
                                != (RESET_IO_BANK0 | RESET_PADS_BANK0));
  }
  \<close>
  What a read of the status register returns is decided by the hardware, not by the
  program: \<open>status i\<close> is the value that the \<open>i\<close>-th read of \<^verbatim>\<open>RESETS_RESET_DONE\<close>
  returns, for an arbitrary \<open>status\<close>. The loop has no bound, so it is a partial function:
  \<open>None\<close> is the routine that never returns.
\<close>

partial_function (option) resets_poll :: "(nat \<Rightarrow> u32) \<Rightarrow> nat \<Rightarrow> machine \<Rightarrow> machine option" where
  "resets_poll status i s =
     (if (status i AND (RESET_IO_BANK0 OR RESET_PADS_BANK0))
           \<noteq> (RESET_IO_BANK0 OR RESET_PADS_BANK0)
      then resets_poll status (Suc i) (mmio_read RESETS_RESET_DONE (status i) s)
      else Some (mmio_read RESETS_RESET_DONE (status i) s))"

definition resets_init :: "(nat \<Rightarrow> u32) \<Rightarrow> machine \<Rightarrow> machine option" where
  "resets_init status s =
     resets_poll status 0 (mmio_write RESETS_RESET_CLR (RESET_IO_BANK0 OR RESET_PADS_BANK0) s)"

text \<open>
  \<^verbatim>\<open>
  static void gpio_init(void) {
      GPIO25_CTRL = FUNCSEL_SIO;
      GPIO_OE_SET = LED_MASK;
      GPIO_OUT_XOR = LED_MASK;
  }
  \<close>
\<close>

definition gpio_init :: "machine \<Rightarrow> machine" where
  "gpio_init s =
     mmio_write GPIO_OUT_XOR LED_MASK
       (mmio_write GPIO_OE_SET LED_MASK
         (mmio_write GPIO25_CTRL FUNCSEL_SIO s))"

text \<open>
  \<^verbatim>\<open>
  static void systick_init(void) {
      const uint32_t ticks_per_ms = 6000;
      SYST_RVR = ticks_per_ms - 1;
      SYST_CVR = 0;
      SYST_CSR = (1u << 2) | (1u << 1) | (1u << 0);
  }
  \<close>
\<close>

definition ticks_per_ms :: u32 where
  "ticks_per_ms = 6000"

definition systick_init :: "machine \<Rightarrow> machine" where
  "systick_init s =
     mmio_write SYST_CSR (push_bit 2 1 OR push_bit 1 1 OR push_bit 0 1)
       (mmio_write SYST_CVR 0
         (mmio_write SYST_RVR (ticks_per_ms - 1) s))"

text \<open>
  \<^verbatim>\<open>main\<close> calls the three routines in this order and then idles in \<^verbatim>\<open>while (1)\<close>.
  \<open>main_init\<close> is \<^verbatim>\<open>main\<close> up to the idle loop; \<open>main\<close> itself never returns.
\<close>

definition main_init :: "(nat \<Rightarrow> u32) \<Rightarrow> machine \<Rightarrow> machine option" where
  "main_init status s =
     (case resets_init status s of
        None \<Rightarrow> None
      | Some s1 \<Rightarrow> Some (systick_init (gpio_init s1)))"

partial_function (option) idle_loop :: "machine \<Rightarrow> machine option" where
  "idle_loop s = idle_loop s"

definition main :: "(nat \<Rightarrow> u32) \<Rightarrow> machine \<Rightarrow> machine option" where
  "main status s =
     (case main_init status s of
        None \<Rightarrow> None
      | Some s1 \<Rightarrow> idle_loop s1)"

subsection \<open>The SIO output registers\<close>

text \<open>
  What a register write does is the hardware's part. main.c documents the two SIO
  registers it writes: \<^verbatim>\<open>OUT_XOR\<close> (``writing a bitmask XORs those bits with the current
  output level'') and \<^verbatim>\<open>OE_SET\<close> (``only raises bits, never lowers others''). The
  block below is that description; a write to any other address leaves the output level
  and the output enables as they are, and so does a read.
\<close>

record sio =
  gpio_out :: u32
  gpio_oe :: u32

definition sio_write :: "u32 \<Rightarrow> u32 \<Rightarrow> sio \<Rightarrow> sio" where
  "sio_write a v h =
     (if a = GPIO_OUT_XOR then h\<lparr>gpio_out := gpio_out h XOR v\<rparr>
      else if a = GPIO_OE_SET then h\<lparr>gpio_oe := gpio_oe h OR v\<rparr>
      else h)"

fun sio_event :: "mmio \<Rightarrow> sio \<Rightarrow> sio" where
  "sio_event (MWrite a v) h = sio_write a v h"
| "sio_event (MRead a v) h = h"

definition sio_run :: "mmio list \<Rightarrow> sio \<Rightarrow> sio" where
  "sio_run evs h = fold sio_event evs h"

text \<open>The SIO block after a chip reset: every output low, every output disabled.\<close>

definition sio_reset :: sio where
  "sio_reset = \<lparr>gpio_out = 0, gpio_oe = 0\<rparr>"

text \<open>Whether an access is a write to the register at address \<open>a\<close>.\<close>

fun writes_to :: "u32 \<Rightarrow> mmio \<Rightarrow> bool" where
  "writes_to a (MWrite b v) = (a = b)"
| "writes_to a (MRead b v) = False"

subsection \<open>The reload value of the specification\<close>

text \<open>
  The reload value that the specification asks for, in its own words: the core clock
  frequency divided by the tick rate, less one because the timer fires every
  \<open>R + 1\<close> cycles.
\<close>

definition spec_reload_value :: "nat \<Rightarrow> nat \<Rightarrow> u32" where
  "spec_reload_value clock_hz tick_hz = of_nat (clock_hz div tick_hz - 1)"

subsection \<open>Sample inputs\<close>

text \<open>States and status sequences on which the theorems below are instantiated.\<close>

definition before_wrap :: machine where
  "before_wrap = \<lparr>tick_count = 4294967000, trace = []\<rparr>"

definition ready_at_third_poll :: "nat \<Rightarrow> u32" where
  "ready_at_third_poll i = (if i < 2 then 0x20 else 0x01FFFFFF)"

text \<open>A status register that shows IO_BANK0 out of reset at every read, and no other
  block.\<close>

definition only_io_bank0_ready :: "nat \<Rightarrow> u32" where
  "only_io_bank0_ready i = RESET_IO_BANK0"

section \<open>The reset sequencer (startup.c)\<close>

text \<open>
  Memory is read and written here one 32-bit word at a time, through \<^verbatim>\<open>uint32_t *\<close>
  pointers: a memory maps the byte address of a word to the word stored there. Pointers
  are 32-bit addresses, \<^verbatim>\<open>p++\<close> adds the size of a word to them, and the comparison of
  two pointers is the unsigned comparison of the addresses.

  The symbols \<^verbatim>\<open>_data_start\<close>, \<^verbatim>\<open>_data_end\<close>, \<^verbatim>\<open>_data_flash\<close>, \<^verbatim>\<open>_bss_start\<close>,
  \<^verbatim>\<open>_bss_end\<close> and \<^verbatim>\<open>_stack_top\<close> are addresses that the linker script supplies; the C
  code only takes them with \<^verbatim>\<open>&\<close>. They are the fields of a layout.
\<close>

type_synonym memory = "u32 \<Rightarrow> u32"

record layout =
  data_start :: u32
  data_end :: u32
  data_flash :: u32
  bss_start :: u32
  bss_end :: u32
  stack_top :: u32

text \<open>
  \<^verbatim>\<open>
  uint32_t *src = &_data_flash;
  uint32_t *dst = &_data_start;
  while (dst < &_data_end){
      *dst++ = *src++;
  }
  \<close>
  Nothing bounds the number of iterations in the code itself (an end address that the
  stepping pointer jumps over when it wraps is never reached), so the loop is a partial
  function.
\<close>

partial_function (option) copy_loop :: "u32 \<Rightarrow> u32 \<Rightarrow> u32 \<Rightarrow> memory \<Rightarrow> memory option" where
  "copy_loop src dst dend m =
     (if dst < dend then copy_loop (src + 4) (dst + 4) dend (m(dst := m src)) else Some m)"

text \<open>
  \<^verbatim>\<open>
  dst = &_bss_start;
  while (dst < &_bss_end){
      *dst++ = 0;
  }
  \<close>
\<close>

partial_function (option) zero_loop :: "u32 \<Rightarrow> u32 \<Rightarrow> memory \<Rightarrow> memory option" where
  "zero_loop dst bend m =
     (if dst < bend then zero_loop (dst + 4) bend (m(dst := 0)) else Some m)"

text \<open>
  \<^verbatim>\<open>Reset_Handler\<close> runs the two loops, calls \<^verbatim>\<open>main\<close> and, should \<^verbatim>\<open>main\<close> return,
  traps in \<^verbatim>\<open>while(1)\<close>.
\<close>

definition Reset_Handler ::
  "layout \<Rightarrow> (nat \<Rightarrow> u32) \<Rightarrow> memory \<times> machine \<Rightarrow> (memory \<times> machine) option" where
  "Reset_Handler L status ms =
     (case copy_loop (data_flash L) (data_start L) (data_end L) (fst ms) of
        None \<Rightarrow> None
      | Some m1 \<Rightarrow>
          (case zero_loop (bss_start L) (bss_end L) m1 of
             None \<Rightarrow> None
           | Some m2 \<Rightarrow>
               (case main status (snd ms) of
                  None \<Rightarrow> None
                | Some s1 \<Rightarrow> map_option (Pair m2) (idle_loop s1))))"

text \<open>A memory and two small layouts on which the theorems below are instantiated: three
  words of initialised data seeded from flash, and two words of .bss.\<close>

definition sample_memory :: memory where
  "sample_memory a =
     (if a = 0x10000200 then 11 else if a = 0x10000204 then 22
      else if a = 0x10000208 then 33 else 0xDEADBEEF)"

definition sample_layout :: layout where
  "sample_layout =
     \<lparr>data_start = 0x20000000, data_end = 0x2000000C, data_flash = 0x10000200,
      bss_start = 0x2000000C, bss_end = 0x20000014, stack_top = 0x20042000\<rparr>"

section \<open>The vector table (vectors.c)\<close>

text \<open>
  \<^verbatim>\<open>
  void Default_Handler(void) {
      while(1);
  }
  \<close>
\<close>

partial_function (option) Default_Handler :: "'s \<Rightarrow> 's option" where
  "Default_Handler s = Default_Handler s"

text \<open>
  Functions and linker symbols are referred to by name. vectors.c declares each of the
  handlers below as \<^verbatim>\<open>__attribute__((weak, alias("Default_Handler")))\<close>, in this order.
\<close>

type_synonym symbol = string

definition weak_aliases :: "(symbol \<times> symbol) list" where
  "weak_aliases =
    [(''NMI_Handler'', ''Default_Handler''),
     (''HardFault_Handler'', ''Default_Handler''),
     (''SVC_Handler'', ''Default_Handler''),
     (''PendSV_Handler'', ''Default_Handler''),
     (''SysTick_Handler'', ''Default_Handler''),
     (''TIMER_IRQ0_Handler'', ''Default_Handler''),
     (''TIMER_IRQ1_Handler'', ''Default_Handler''),
     (''TIMER_IRQ2_Handler'', ''Default_Handler''),
     (''TIMER_IRQ3_Handler'', ''Default_Handler''),
     (''PWM_IRQ_Handler'', ''Default_Handler''),
     (''USBCTRL_IRQ_Handler'', ''Default_Handler''),
     (''PIO0_IRQ0_Handler'', ''Default_Handler''),
     (''PIO0_IRQ1_Handler'', ''Default_Handler''),
     (''PIO1_IRQ0_Handler'', ''Default_Handler''),
     (''PIO1_IRQ1_Handler'', ''Default_Handler''),
     (''DMA_IRQ0_Handler'', ''Default_Handler''),
     (''DMA_IRQ1_Handler'', ''Default_Handler''),
     (''IO_IRQ_Handler'', ''Default_Handler''),
     (''SPI0_IRQ_Handler'', ''Default_Handler''),
     (''SPI1_IRQ_Handler'', ''Default_Handler''),
     (''UART0_IRQ_Handler'', ''Default_Handler''),
     (''UART1_IRQ_Handler'', ''Default_Handler''),
     (''ADC_IRQ_Handler'', ''Default_Handler''),
     (''I2C0_IRQ_Handler'', ''Default_Handler''),
     (''I2C1_IRQ_Handler'', ''Default_Handler''),
     (''RTC_IRQ_Handler'', ''Default_Handler'')]"

text \<open>
  An initialiser of \<^verbatim>\<open>vector_table[]\<close> is either \<^verbatim>\<open>(uint32_t)&name\<close> or the literal
  \<^verbatim>\<open>0\<close>.
\<close>

datatype vector = Addr_of symbol | Zero

definition vector_table :: "vector list" where
  "vector_table =
    [Addr_of ''_stack_top'',
     Addr_of ''Reset_Handler'',
     Addr_of ''NMI_Handler'',
     Addr_of ''HardFault_Handler'',
     Zero,
     Zero,
     Zero,
     Zero,
     Zero,
     Zero,
     Zero,
     Addr_of ''SVC_Handler'',
     Zero,
     Zero,
     Addr_of ''PendSV_Handler'',
     Addr_of ''SysTick_Handler'',
     Addr_of ''TIMER_IRQ0_Handler'',
     Addr_of ''TIMER_IRQ1_Handler'',
     Addr_of ''TIMER_IRQ2_Handler'',
     Addr_of ''TIMER_IRQ3_Handler'',
     Addr_of ''PWM_IRQ_Handler'',
     Addr_of ''USBCTRL_IRQ_Handler'',
     Zero,
     Addr_of ''PIO0_IRQ0_Handler'',
     Addr_of ''PIO0_IRQ1_Handler'',
     Addr_of ''PIO1_IRQ0_Handler'',
     Addr_of ''PIO1_IRQ1_Handler'',
     Addr_of ''DMA_IRQ0_Handler'',
     Addr_of ''DMA_IRQ1_Handler'',
     Addr_of ''IO_IRQ_Handler'',
     Zero,
     Zero,
     Zero,
     Zero,
     Addr_of ''SPI0_IRQ_Handler'',
     Addr_of ''SPI1_IRQ_Handler'',
     Addr_of ''UART0_IRQ_Handler'',
     Addr_of ''UART1_IRQ_Handler'',
     Addr_of ''ADC_IRQ_Handler'',
     Addr_of ''I2C0_IRQ_Handler'',
     Addr_of ''I2C1_IRQ_Handler'',
     Addr_of ''RTC_IRQ_Handler'']"

text \<open>
  The comment that vectors.c puts on each initialiser, in the order of the table: the
  exception number it is written for, and what that number is. Slots 4 to 10, 12 and 13
  are commented as reserved; every other slot names an exception or an interrupt line.
\<close>

datatype slot_doc = Initial_SP | Reserved | Source string

definition vector_table_doc :: "(nat \<times> slot_doc) list" where
  "vector_table_doc =
    [(0, Initial_SP),
     (1, Source ''Reset''),
     (2, Source ''Non Maskable Interrupt''),
     (3, Source ''Hard Fault''),
     (4, Reserved),
     (5, Reserved),
     (6, Reserved),
     (7, Reserved),
     (8, Reserved),
     (9, Reserved),
     (10, Reserved),
     (11, Source ''Supervisor Call''),
     (12, Reserved),
     (13, Reserved),
     (14, Source ''Pendable Service Call''),
     (15, Source ''System Tick Timer''),
     (16, Source ''IRQ0 Timer 0''),
     (17, Source ''IRQ1 Timer 1''),
     (18, Source ''IRQ2 Timer 2''),
     (19, Source ''IRQ3 Timer 3''),
     (20, Source ''IRQ4 PWM''),
     (21, Source ''IRQ5 USB''),
     (22, Source ''IRQ6 XIP''),
     (23, Source ''IRQ7 PIO0 IRQ0''),
     (24, Source ''IRQ8 PIO0 IRQ1''),
     (25, Source ''IRQ9 PIO1 IRQ0''),
     (26, Source ''IRQ10 PIO1 IRQ1''),
     (27, Source ''IRQ11 DMA 0''),
     (28, Source ''IRQ12 DMA 1''),
     (29, Source ''IRQ13 GPIO''),
     (30, Source ''IRQ14 QSPI''),
     (31, Source ''IRQ15 SIO PROC0''),
     (32, Source ''IRQ16 SIO PROC1''),
     (33, Source ''IRQ17 Clocks''),
     (34, Source ''IRQ18 SPI0''),
     (35, Source ''IRQ19 SPI1''),
     (36, Source ''IRQ20 UART0''),
     (37, Source ''IRQ21 UART1''),
     (38, Source ''IRQ22 ADC''),
     (39, Source ''IRQ23 I2C0''),
     (40, Source ''IRQ24 I2C1''),
     (41, Source ''IRQ25 RTC'')]"

subsection \<open>Override resolution\<close>

text \<open>
  What the linker makes of a reference to \<open>name\<close>, as the comment on the weak aliases
  describes it: if another file of the image defines \<open>name\<close> (\<open>strong\<close> lists the names so
  defined), the reference is to that definition; otherwise, if \<open>name\<close> is a weak alias,
  it is to the alias's target; a name that is neither is an ordinary external symbol and
  refers to itself.
\<close>

definition resolve :: "symbol list \<Rightarrow> symbol \<Rightarrow> symbol" where
  "resolve strong name =
     (if name \<in> set strong then name
      else case map_of weak_aliases name of Some target \<Rightarrow> target | None \<Rightarrow> name)"

text \<open>The table as linked: \<open>addr\<close> is the address that the linker has given to each
  definition.\<close>

definition linked_slot :: "(symbol \<Rightarrow> u32) \<Rightarrow> symbol list \<Rightarrow> vector \<Rightarrow> u32" where
  "linked_slot addr strong v =
     (case v of Zero \<Rightarrow> 0 | Addr_of name \<Rightarrow> addr (resolve strong name))"

definition linked_vector_table :: "(symbol \<Rightarrow> u32) \<Rightarrow> symbol list \<Rightarrow> u32 list" where
  "linked_vector_table addr strong = map (linked_slot addr strong) vector_table"

subsection \<open>Exception entry\<close>

text \<open>
  On exception number \<open>k\<close> the processor fetches slot \<open>k\<close> of the table and branches to
  the address it holds, which is where the definition that the slot's name resolves to
  has its code. \<open>app\<close> gives the code of the definitions that the other files of the image
  supply; vectors.c supplies \<^verbatim>\<open>Default_Handler\<close> itself. A handler is a function on the
  state that may never return (\<open>None\<close>). Slot 0 is the initial stack pointer and not an
  entry point; for it, for a slot beyond the table and for a slot that holds the zero
  placeholder there is no handler to enter.
\<close>

datatype fault = No_Handler

definition handler_code :: "(symbol \<Rightarrow> 's \<Rightarrow> 's option) \<Rightarrow> symbol \<Rightarrow> 's \<Rightarrow> 's option" where
  "handler_code app d = (if d = ''Default_Handler'' then Default_Handler else app d)"

definition invoke ::
  "(symbol \<Rightarrow> 's \<Rightarrow> 's option) \<Rightarrow> symbol list \<Rightarrow> nat \<Rightarrow> 's \<Rightarrow> (fault + 's) option" where
  "invoke app strong k s =
     (if k = 0 \<or> length vector_table \<le> k then Some (Inl No_Handler)
      else case vector_table ! k of
             Zero \<Rightarrow> Some (Inl No_Handler)
           | Addr_of name \<Rightarrow> map_option Inr (handler_code app (resolve strong name) s))"

text \<open>
  This image: startup.c defines \<^verbatim>\<open>Reset_Handler\<close>, main.c defines \<^verbatim>\<open>main\<close> and
  \<^verbatim>\<open>SysTick_Handler\<close>; every other handler name is left to its weak alias. The addresses
  are sample values for the instantiation of the theorems.
\<close>

definition image_strong :: "symbol list" where
  "image_strong = [''Reset_Handler'', ''main'', ''SysTick_Handler'']"

definition image_code ::
  "layout \<Rightarrow> (nat \<Rightarrow> u32) \<Rightarrow> symbol \<Rightarrow> memory \<times> machine \<Rightarrow> (memory \<times> machine) option" where
  "image_code L status name =
     (if name = ''Reset_Handler'' then Reset_Handler L status
      else if name = ''main'' then (\<lambda>ms. map_option (Pair (fst ms)) (main status (snd ms)))
      else if name = ''SysTick_Handler'' then (\<lambda>ms. Some (fst ms, SysTick_Handler (snd ms)))
      else Default_Handler)"

definition sample_addr :: "symbol \<Rightarrow> u32" where
  "sample_addr name =
     (if name = ''_stack_top'' then 0x20042000
      else if name = ''Reset_Handler'' then 0x100001C1
      else if name = ''Default_Handler'' then 0x100001BD
      else if name = ''SysTick_Handler'' then 0x10000201
      else if name = ''main'' then 0x10000291
      else 0)"

lemmas mmio_addr_defs =
  RESETS_BASE_def RESETS_RESET_def RESETS_RESET_CLR_def RESETS_RESET_DONE_def
  RESET_IO_BANK0_def RESET_PADS_BANK0_def PADS_BANK0_BASE_def PADS_GPIO25_def
  IO_BANK0_BASE_def GPIO25_CTRL_def FUNCSEL_SIO_def SIO_BASE_def GPIO_OUT_XOR_def
  GPIO_OE_SET_def SYST_CSR_def SYST_RVR_def SYST_CVR_def LED_PIN_def LED_MASK_def

section \<open>Properties of the periodic timer ISR\<close>

lemma SysTick_Handler_tick_count:
  "tick_count (SysTick_Handler s) = tick_count s + 1"
  by (simp add: SysTick_Handler_def mmio_write_def Let_def)

lemma SysTick_Handler_trace:
  "trace (SysTick_Handler s) =
     trace s @ (if (tick_count s + 1) mod 500 = 0 then [MWrite GPIO_OUT_XOR LED_MASK] else [])"
  by (simp add: SysTick_Handler_def mmio_write_def Let_def)

lemma SysTick_Handler_toggles:
  "toggles (SysTick_Handler s) =
     toggles s + (if (tick_count s + 1) mod 500 = 0 then 1 else 0)"
  by (simp add: toggles_def SysTick_Handler_trace)

lemma u32_mod_500_iff:
  fixes c :: u32
  shows "c mod 500 = 0 \<longleftrightarrow> unat c mod 500 = 0"
proof -
  have "c mod 500 = 0 \<longleftrightarrow> unat (c mod 500) = 0"
    by (simp add: unat_eq_0)
  also have "unat (c mod 500) = unat c mod 500"
    by (simp add: unat_mod)
  finally show ?thesis .
qed

lemma unat_tick_succ:
  fixes c :: u32
  assumes "unat c + 1 < 2 ^ 32"
  shows "unat (c + 1) = unat c + 1"
  using assms by (simp add: unat_word_ariths)

text \<open>As long as the counter does not wrap, \<open>n\<close> firings advance it by \<open>n\<close> and toggle
  once for every multiple of 500 that it passes.\<close>

lemma firings_trace_no_wrap:
  assumes "unat (tick_count s) + n < 2 ^ 32"
  shows "unat (tick_count ((SysTick_Handler ^^ n) s)) = unat (tick_count s) + n
       \<and> trace ((SysTick_Handler ^^ n) s) =
           trace s @ replicate ((unat (tick_count s) + n) div 500 - unat (tick_count s) div 500)
                       (MWrite GPIO_OUT_XOR LED_MASK)"
  using assms
proof (induction n)
  case 0
  then show ?case by simp
next
  case (Suc n)
  let ?t = "(SysTick_Handler ^^ n) s"
  let ?c = "unat (tick_count s)"
  let ?x = "MWrite GPIO_OUT_XOR LED_MASK"
  from Suc have cnt: "unat (tick_count ?t) = ?c + n"
    and tr: "trace ?t = trace s @ replicate ((?c + n) div 500 - ?c div 500) ?x"
    by simp_all
  from Suc.prems cnt have nowrap: "unat (tick_count ?t) + 1 < 2 ^ 32"
    by simp
  have next_cnt: "unat (tick_count ?t + 1) = ?c + Suc n"
    using unat_tick_succ [OF nowrap] cnt by simp
  have test: "(tick_count ?t + 1) mod 500 = 0 \<longleftrightarrow> (?c + Suc n) mod 500 = 0"
    by (simp only: u32_mod_500_iff next_cnt)
  have mono: "?c div 500 \<le> (?c + n) div 500"
    by (rule div_le_mono) simp
  have step: "(?c + Suc n) div 500 =
      (?c + n) div 500 + (if (?c + Suc n) mod 500 = 0 then 1 else 0)"
    by (simp add: div_Suc)
  have count: "(?c + Suc n) div 500 - ?c div 500 =
      ((?c + n) div 500 - ?c div 500) + (if (?c + Suc n) mod 500 = 0 then 1 else 0)"
    using mono step by simp
  have "trace ((SysTick_Handler ^^ Suc n) s) =
      trace ?t @ replicate (if (?c + Suc n) mod 500 = 0 then 1 else 0) ?x"
    by (simp add: SysTick_Handler_trace test)
  also have "\<dots> = trace s @ replicate ((?c + Suc n) div 500 - ?c div 500) ?x"
    by (simp only: tr count replicate_add append_assoc)
  finally have "trace ((SysTick_Handler ^^ Suc n) s) =
      trace s @ replicate ((?c + Suc n) div 500 - ?c div 500) ?x" .
  moreover have "unat (tick_count ((SysTick_Handler ^^ Suc n) s)) = ?c + Suc n"
    using next_cnt by (simp add: SysTick_Handler_tick_count)
  ultimately show ?case by simp
qed

lemma firings_no_wrap:
  assumes "unat (tick_count s) + n < 2 ^ 32"
  shows "unat (tick_count ((SysTick_Handler ^^ n) s)) = unat (tick_count s) + n
       \<and> toggles ((SysTick_Handler ^^ n) s) =
           toggles s + ((unat (tick_count s) + n) div 500 - unat (tick_count s) div 500)"
  using firings_trace_no_wrap [OF assms] by (simp add: toggles_def)

text \<open>
  Claim C1. Every firing of the ISR increments the tick counter by one and then writes the
  LED mask to the toggle register exactly when the incremented counter is a multiple of
  500. Hence, from a counter of 0, the firings have toggled the pin once after 500 firings,
  once after 999 and twice after 1000; in general \<open>n div 500\<close> times after \<open>n\<close> firings,
  for every \<open>n\<close> below \<open>2 ^ 32\<close>.
\<close>

theorem SysTick_Handler_toggle_schedule:
  "tick_count (SysTick_Handler s) = tick_count s + 1
   \<and> trace (SysTick_Handler s) =
       trace s @ (if (tick_count s + 1) mod 500 = 0 then [MWrite GPIO_OUT_XOR LED_MASK] else [])
   \<and> (tick_count s = 0 \<longrightarrow>
        toggles ((SysTick_Handler ^^ 500) s) = toggles s + 1
      \<and> toggles ((SysTick_Handler ^^ 999) s) = toggles s + 1
      \<and> toggles ((SysTick_Handler ^^ 1000) s) = toggles s + 2
      \<and> (\<forall>n < 2 ^ 32. toggles ((SysTick_Handler ^^ n) s) = toggles s + n div 500))"
proof -
  have general: "toggles ((SysTick_Handler ^^ n) s) = toggles s + n div 500"
    if "tick_count s = 0" and "n < 2 ^ 32" for n
    using firings_no_wrap [of s n] that by simp
  have "toggles ((SysTick_Handler ^^ 500) s) = toggles s + 1" if "tick_count s = 0"
    using general [OF that, of 500] by simp
  moreover have "toggles ((SysTick_Handler ^^ 999) s) = toggles s + 1" if "tick_count s = 0"
    using general [OF that, of 999] by simp
  moreover have "toggles ((SysTick_Handler ^^ 1000) s) = toggles s + 2" if "tick_count s = 0"
    using general [OF that, of 1000] by simp
  ultimately show ?thesis
    using general by (simp add: SysTick_Handler_tick_count SysTick_Handler_trace)
qed

theorem SysTick_Handler_toggle_schedule_witness:
  "tick_count boot_state = 0
   \<and> toggles boot_state = 0
   \<and> toggles ((SysTick_Handler ^^ 500) boot_state) = 1
   \<and> toggles ((SysTick_Handler ^^ 999) boot_state) = 1
   \<and> toggles ((SysTick_Handler ^^ 1000) boot_state) = 2
   \<and> toggles ((SysTick_Handler ^^ 499) boot_state) = 0"
proof -
  have c0: "tick_count boot_state = 0" and t0: "toggles boot_state = 0"
    by (simp_all add: boot_state_def toggles_def)
  have "(499::nat) < 2 ^ 32" by simp
  then show ?thesis
    using SysTick_Handler_toggle_schedule [of boot_state] c0 t0 by auto
qed

section \<open>The tick counter across its wrap-around\<close>

lemma tick_at_max:
  fixes c :: u32
  assumes "unat c = 4294967295"
  shows "c = 0xFFFFFFFF"
proof -
  have "unat c = unat (0xFFFFFFFF :: u32)" using assms by simp
  then show ?thesis by (simp only: word_unat_eq_iff)
qed

text \<open>
  Claim C9. The tick counter is a 32-bit unsigned value and \<open>2 ^ 32 mod 500 = 296\<close>. The
  firing that finds the counter at 4294967295 wraps it to 0 and toggles the pin, since 0 is
  a multiple of 500. The toggle before that one happens when the counter reaches
  4294967000; the next 295 firings do not toggle, and the 296th is the wrapping one.
\<close>

theorem SysTick_Handler_wraparound:
  "(2 ^ 32 :: nat) mod 500 = 296
   \<and> (tick_count s = 4294967295 \<longrightarrow>
        tick_count (SysTick_Handler s) = 0
      \<and> trace (SysTick_Handler s) = trace s @ [MWrite GPIO_OUT_XOR LED_MASK])
   \<and> (tick_count s = 4294966999 \<longrightarrow>
        tick_count (SysTick_Handler s) = 4294967000
      \<and> toggles (SysTick_Handler s) = toggles s + 1)
   \<and> (tick_count s = 4294967000 \<longrightarrow>
        (\<forall>n \<le> 295. toggles ((SysTick_Handler ^^ n) s) = toggles s)
      \<and> toggles ((SysTick_Handler ^^ 296) s) = toggles s + 1
      \<and> tick_count ((SysTick_Handler ^^ 296) s) = 0)"
proof -
  have wrap: "tick_count (SysTick_Handler t) = 0
      \<and> trace (SysTick_Handler t) = trace t @ [MWrite GPIO_OUT_XOR LED_MASK]"
    if "tick_count t = 4294967295" for t
    using that by (simp add: SysTick_Handler_tick_count SysTick_Handler_trace)
  have prev: "tick_count (SysTick_Handler s) = 4294967000
      \<and> toggles (SysTick_Handler s) = toggles s + 1"
    if "tick_count s = 4294966999"
    using that by (simp add: SysTick_Handler_tick_count SysTick_Handler_toggles)
  have quiet: "unat (tick_count ((SysTick_Handler ^^ n) s)) = 4294967000 + n
      \<and> toggles ((SysTick_Handler ^^ n) s) = toggles s"
    if "tick_count s = 4294967000" and "n \<le> 295" for n
  proof -
    have "unat (tick_count s) + n < 2 ^ 32" using that by simp
    from firings_no_wrap [OF this] that show ?thesis by simp
  qed
  have last: "toggles ((SysTick_Handler ^^ 296) s) = toggles s + 1
      \<and> tick_count ((SysTick_Handler ^^ 296) s) = 0"
    if c: "tick_count s = 4294967000"
  proof -
    let ?t = "(SysTick_Handler ^^ 295) s"
    from quiet [OF c, of 295] have u: "unat (tick_count ?t) = 4294967295"
      and q: "toggles ?t = toggles s" by simp_all
    from u have m: "tick_count ?t = 4294967295" by (rule tick_at_max [simplified])
    have unfold: "(SysTick_Handler ^^ 296) s = SysTick_Handler ?t"
    proof -
      have "(296::nat) = Suc 295" by simp
      then show ?thesis by (simp only: funpow.simps o_apply)
    qed
    from wrap [OF m] q m show ?thesis
      by (simp add: unfold SysTick_Handler_toggles SysTick_Handler_tick_count)
  qed
  have "(2 ^ 32 :: nat) mod 500 = 296" by simp
  with wrap prev quiet last show ?thesis by blast
qed

theorem SysTick_Handler_wraparound_witness:
  "tick_count before_wrap = 4294967000
   \<and> toggles ((SysTick_Handler ^^ 295) before_wrap) = 0
   \<and> toggles ((SysTick_Handler ^^ 296) before_wrap) = 1
   \<and> tick_count ((SysTick_Handler ^^ 296) before_wrap) = 0"
proof -
  have c: "tick_count before_wrap = 4294967000" and t: "toggles before_wrap = 0"
    by (simp_all add: before_wrap_def toggles_def)
  have "(295::nat) \<le> 295" by simp
  with SysTick_Handler_wraparound [of before_wrap] c t show ?thesis by auto
qed

section \<open>Peripheral reset release\<close>

text \<open>If the poll loop returns, some read of the status register showed both blocks out
  of reset.\<close>

lemma resets_poll_returns_ready:
  assumes "resets_poll status i s = Some s'"
  shows "\<exists>k\<ge>i. (status k AND (RESET_IO_BANK0 OR RESET_PADS_BANK0))
                  = (RESET_IO_BANK0 OR RESET_PADS_BANK0)"
proof (rule resets_poll.raw_induct
    [where P = "\<lambda>st i s s'. \<exists>k\<ge>i. (st k AND (RESET_IO_BANK0 OR RESET_PADS_BANK0))
                  = (RESET_IO_BANK0 OR RESET_PADS_BANK0)", OF _ assms])
  fix poll :: "(nat \<Rightarrow> u32) \<Rightarrow> nat \<Rightarrow> machine \<Rightarrow> machine option"
  fix st :: "nat \<Rightarrow> u32" and i :: nat and s s' :: machine
  assume IH: "\<And>st i s s'. poll st i s = Some s' \<Longrightarrow>
      \<exists>k\<ge>i. (st k AND (RESET_IO_BANK0 OR RESET_PADS_BANK0))
                  = (RESET_IO_BANK0 OR RESET_PADS_BANK0)"
  assume body: "(if (st i AND (RESET_IO_BANK0 OR RESET_PADS_BANK0))
           \<noteq> (RESET_IO_BANK0 OR RESET_PADS_BANK0)
      then poll st (Suc i) (mmio_read RESETS_RESET_DONE (st i) s)
      else Some (mmio_read RESETS_RESET_DONE (st i) s)) = Some s'"
  show "\<exists>k\<ge>i. (st k AND (RESET_IO_BANK0 OR RESET_PADS_BANK0))
                  = (RESET_IO_BANK0 OR RESET_PADS_BANK0)"
  proof (cases "(st i AND (RESET_IO_BANK0 OR RESET_PADS_BANK0))
                  = (RESET_IO_BANK0 OR RESET_PADS_BANK0)")
    case True
    then show ?thesis by blast
  next
    case False
    with body have "poll st (Suc i) (mmio_read RESETS_RESET_DONE (st i) s) = Some s'"
      by simp
    from IH [OF this] obtain k where "Suc i \<le> k"
      and "(st k AND (RESET_IO_BANK0 OR RESET_PADS_BANK0))
             = (RESET_IO_BANK0 OR RESET_PADS_BANK0)"
      by blast
    then show ?thesis by (intro exI [of _ k]) simp
  qed
qed

lemma resets_poll_never_ready:
  assumes "\<forall>k. (status k AND (RESET_IO_BANK0 OR RESET_PADS_BANK0))
                  \<noteq> (RESET_IO_BANK0 OR RESET_PADS_BANK0)"
  shows "resets_poll status i s = None"
proof (cases "resets_poll status i s")
  case None
  then show ?thesis .
next
  case (Some s')
  from resets_poll_returns_ready [OF this] assms show ?thesis by blast
qed

text \<open>The loop returns at the first read that shows both blocks out of reset, having
  read the status register once per iteration up to that one.\<close>

lemma resets_poll_first_ready:
  assumes "(status k AND (RESET_IO_BANK0 OR RESET_PADS_BANK0))
             = (RESET_IO_BANK0 OR RESET_PADS_BANK0)"
    and "\<forall>j. i \<le> j \<and> j < k \<longrightarrow>
           (status j AND (RESET_IO_BANK0 OR RESET_PADS_BANK0))
             \<noteq> (RESET_IO_BANK0 OR RESET_PADS_BANK0)"
    and "i \<le> k"
  shows "resets_poll status i s =
           Some (s\<lparr>trace := trace s @ map (\<lambda>j. MRead RESETS_RESET_DONE (status j)) [i..<Suc k]\<rparr>)"
  using assms(2,3)
proof (induction "k - i" arbitrary: i s)
  case 0
  then have "i = k" by simp
  with assms(1) show ?case
    by (subst resets_poll.simps) (simp add: mmio_read_def)
next
  case (Suc d)
  then have lt: "i < k" by simp
  with Suc.prems have busy: "(status i AND (RESET_IO_BANK0 OR RESET_PADS_BANK0))
             \<noteq> (RESET_IO_BANK0 OR RESET_PADS_BANK0)"
    by simp
  let ?s1 = "mmio_read RESETS_RESET_DONE (status i) s"
  have "resets_poll status (Suc i) ?s1 =
      Some (?s1\<lparr>trace := trace ?s1 @
        map (\<lambda>j. MRead RESETS_RESET_DONE (status j)) [Suc i..<Suc k]\<rparr>)"
  proof (rule Suc.hyps(1))
    show "d = k - Suc i" using Suc.hyps(2) by simp
    show "\<forall>j. Suc i \<le> j \<and> j < k \<longrightarrow>
           (status j AND (RESET_IO_BANK0 OR RESET_PADS_BANK0))
             \<noteq> (RESET_IO_BANK0 OR RESET_PADS_BANK0)"
      using Suc.prems(1) by simp
    show "Suc i \<le> k" using lt by simp
  qed
  moreover have "[i..<Suc k] = i # [Suc i..<Suc k]"
    using lt by (simp add: upt_conv_Cons)
  moreover have "resets_poll status i s = resets_poll status (Suc i) ?s1"
    using busy by (subst resets_poll.simps) simp
  ultimately show ?case
    by (simp add: mmio_read_def)
qed

lemma resets_init_first_ready:
  assumes "(status k AND (RESET_IO_BANK0 OR RESET_PADS_BANK0))
             = (RESET_IO_BANK0 OR RESET_PADS_BANK0)"
    and "\<forall>i<k. (status i AND (RESET_IO_BANK0 OR RESET_PADS_BANK0))
             \<noteq> (RESET_IO_BANK0 OR RESET_PADS_BANK0)"
  shows "resets_init status s =
      Some (s\<lparr>trace := trace s @ MWrite RESETS_RESET_CLR (RESET_IO_BANK0 OR RESET_PADS_BANK0)
                # map (\<lambda>i. MRead RESETS_RESET_DONE (status i)) [0..<Suc k]\<rparr>)"
proof -
  let ?w = "mmio_write RESETS_RESET_CLR (RESET_IO_BANK0 OR RESET_PADS_BANK0) s"
  have "resets_poll status 0 ?w =
      Some (?w\<lparr>trace := trace ?w @ map (\<lambda>j. MRead RESETS_RESET_DONE (status j)) [0..<Suc k]\<rparr>)"
    by (rule resets_poll_first_ready) (use assms in simp_all)
  then show ?thesis
    by (simp add: resets_init_def mmio_write_def)
qed

text \<open>
  Claim C5, as the code has it. \<^verbatim>\<open>resets_init\<close> takes no bitmask: it releases the one
  bitmask \<^verbatim>\<open>RESET_IO_BANK0 | RESET_PADS_BANK0\<close>, which is \<open>0x120\<close>. For that bitmask it
  first writes the bitmask, once, to the atomic-clear alias of the reset-control register
  (the alias lies \<open>0x3000\<close> above the register; no read precedes the write). It then reads
  the reset-done status register until a read shows every bit of the bitmask set. If no
  read ever does, it never returns. Otherwise it returns after the first read that does,
  and reads the status register no further: the accesses it made are the write followed
  by the reads number \<open>0\<close> to \<open>k\<close>, where the \<open>k\<close>-th read is the first to show both
  blocks out of reset.
\<close>

theorem resets_init_release:
  "RESETS_RESET_CLR = RESETS_RESET + 0x3000
   \<and> RESET_IO_BANK0 OR RESET_PADS_BANK0 = 0x120
   \<and> ((\<forall>i. (status i AND (RESET_IO_BANK0 OR RESET_PADS_BANK0))
              \<noteq> (RESET_IO_BANK0 OR RESET_PADS_BANK0)) \<longrightarrow>
        resets_init status s = None)
   \<and> (\<forall>k. (status k AND (RESET_IO_BANK0 OR RESET_PADS_BANK0))
              = (RESET_IO_BANK0 OR RESET_PADS_BANK0)
          \<and> (\<forall>i<k. (status i AND (RESET_IO_BANK0 OR RESET_PADS_BANK0))
                     \<noteq> (RESET_IO_BANK0 OR RESET_PADS_BANK0)) \<longrightarrow>
        resets_init status s =
          Some (s\<lparr>trace := trace s
                  @ MWrite RESETS_RESET_CLR (RESET_IO_BANK0 OR RESET_PADS_BANK0)
                  # map (\<lambda>i. MRead RESETS_RESET_DONE (status i)) [0..<Suc k]\<rparr>))
   \<and> (\<forall>s'. resets_init status s = Some s' \<longrightarrow>
        (\<exists>k. (status k AND (RESET_IO_BANK0 OR RESET_PADS_BANK0))
               = (RESET_IO_BANK0 OR RESET_PADS_BANK0)
           \<and> (\<forall>i<k. (status i AND (RESET_IO_BANK0 OR RESET_PADS_BANK0))
                      \<noteq> (RESET_IO_BANK0 OR RESET_PADS_BANK0))
           \<and> s' = s\<lparr>trace := trace s
                  @ MWrite RESETS_RESET_CLR (RESET_IO_BANK0 OR RESET_PADS_BANK0)
                  # map (\<lambda>i. MRead RESETS_RESET_DONE (status i)) [0..<Suc k]\<rparr>))"
proof -
  let ?m = "RESET_IO_BANK0 OR RESET_PADS_BANK0"
  let ?ready = "\<lambda>i. (status i AND ?m) = ?m"
  have clr_alias: "RESETS_RESET_CLR = RESETS_RESET + 0x3000"
    by (simp add: RESETS_RESET_CLR_def RESETS_RESET_def)
  have mask: "?m = 0x120"
    by (simp add: RESET_IO_BANK0_def RESET_PADS_BANK0_def)
  have hang: "resets_init status s = None" if "\<forall>i. \<not> ?ready i"
    unfolding resets_init_def using that by (rule resets_poll_never_ready)
  have ret: "resets_init status s =
      Some (s\<lparr>trace := trace s @ MWrite RESETS_RESET_CLR ?m
                # map (\<lambda>i. MRead RESETS_RESET_DONE (status i)) [0..<Suc k]\<rparr>)"
    if "?ready k" and "\<forall>i<k. \<not> ?ready i" for k
    using that by (rule resets_init_first_ready)
  have conv: "\<exists>k. ?ready k \<and> (\<forall>i<k. \<not> ?ready i)
      \<and> s' = s\<lparr>trace := trace s @ MWrite RESETS_RESET_CLR ?m
                # map (\<lambda>i. MRead RESETS_RESET_DONE (status i)) [0..<Suc k]\<rparr>"
    if r: "resets_init status s = Some s'" for s'
  proof -
    from r hang have "\<exists>i. ?ready i" by fastforce
    then obtain k where k: "?ready k" and least: "\<forall>i<k. \<not> ?ready i"
      by (auto simp: exists_least_iff [of ?ready])
    from ret [OF k least] r have "s' = s\<lparr>trace := trace s @ MWrite RESETS_RESET_CLR ?m
                # map (\<lambda>i. MRead RESETS_RESET_DONE (status i)) [0..<Suc k]\<rparr>"
      by simp
    with k least show ?thesis by blast
  qed
  from clr_alias mask hang ret conv show ?thesis by blast
qed

theorem resets_init_release_witness:
  "(ready_at_third_poll 2 AND (RESET_IO_BANK0 OR RESET_PADS_BANK0))
      = (RESET_IO_BANK0 OR RESET_PADS_BANK0)
   \<and> (ready_at_third_poll 0 AND (RESET_IO_BANK0 OR RESET_PADS_BANK0))
      \<noteq> (RESET_IO_BANK0 OR RESET_PADS_BANK0)
   \<and> (ready_at_third_poll 1 AND (RESET_IO_BANK0 OR RESET_PADS_BANK0))
      \<noteq> (RESET_IO_BANK0 OR RESET_PADS_BANK0)
   \<and> resets_init ready_at_third_poll boot_state =
       Some \<lparr>tick_count = 0, trace =
         [MWrite 0x4000F000 0x120, MRead 0x4000C008 0x20, MRead 0x4000C008 0x20,
          MRead 0x4000C008 0x01FFFFFF]\<rparr>
   \<and> resets_init (\<lambda>i. 0x20) boot_state = None"
proof -
  have mask: "RESET_IO_BANK0 OR RESET_PADS_BANK0 = 0x120"
    by (simp add: RESET_IO_BANK0_def RESET_PADS_BANK0_def)
  have r: "(ready_at_third_poll 2 AND (RESET_IO_BANK0 OR RESET_PADS_BANK0))
      = (RESET_IO_BANK0 OR RESET_PADS_BANK0)"
    and b0: "(ready_at_third_poll 0 AND (RESET_IO_BANK0 OR RESET_PADS_BANK0))
      \<noteq> (RESET_IO_BANK0 OR RESET_PADS_BANK0)"
    and b1: "(ready_at_third_poll 1 AND (RESET_IO_BANK0 OR RESET_PADS_BANK0))
      \<noteq> (RESET_IO_BANK0 OR RESET_PADS_BANK0)"
    by (simp_all add: ready_at_third_poll_def mask)
  have busy: "\<forall>i<2. (ready_at_third_poll i AND (RESET_IO_BANK0 OR RESET_PADS_BANK0))
      \<noteq> (RESET_IO_BANK0 OR RESET_PADS_BANK0)"
    by (simp add: ready_at_third_poll_def mask)
  have never: "\<forall>i::nat. ((0x20::u32) AND (RESET_IO_BANK0 OR RESET_PADS_BANK0))
      \<noteq> (RESET_IO_BANK0 OR RESET_PADS_BANK0)"
    by (simp add: mask)
  have upt: "[0..<3] = [0, 1, 2::nat]" by (simp add: upt_rec)
  from resets_init_release [of ready_at_third_poll boot_state] r busy
  have "resets_init ready_at_third_poll boot_state =
      Some (boot_state\<lparr>trace := trace boot_state
        @ MWrite RESETS_RESET_CLR (RESET_IO_BANK0 OR RESET_PADS_BANK0)
        # map (\<lambda>i. MRead RESETS_RESET_DONE (ready_at_third_poll i)) [0..<Suc 2]\<rparr>)"
    by blast
  then have ret: "resets_init ready_at_third_poll boot_state =
       Some \<lparr>tick_count = 0, trace =
         [MWrite 0x4000F000 0x120, MRead 0x4000C008 0x20, MRead 0x4000C008 0x20,
          MRead 0x4000C008 0x01FFFFFF]\<rparr>"
    by (simp add: upt boot_state_def ready_at_third_poll_def mask
        RESETS_RESET_CLR_def RESETS_RESET_DONE_def RESETS_BASE_def)
  from resets_init_release [of "\<lambda>i. 0x20" boot_state] never
  have "resets_init (\<lambda>i. 0x20) boot_state = None" by blast
  with ret r b0 b1 show ?thesis by blast
qed

text \<open>
  The claim as stated speaks of every block bitmask. For the bitmask \<^verbatim>\<open>RESET_IO_BANK0\<close>
  alone it fails: with a status register that shows that block out of reset at every read,
  from the first one on, \<^verbatim>\<open>resets_init\<close> still never returns, since it waits for
  \<^verbatim>\<open>RESET_PADS_BANK0\<close> as well; and the bitmask it writes to the atomic-clear alias is
  \<open>0x120\<close>, not that one.
\<close>

theorem resets_init_fixed_mask:
  "RESET_IO_BANK0 = 0x20
   \<and> (only_io_bank0_ready 0 AND RESET_IO_BANK0) = RESET_IO_BANK0
   \<and> resets_init only_io_bank0_ready boot_state = None
   \<and> trace (mmio_write RESETS_RESET_CLR (RESET_IO_BANK0 OR RESET_PADS_BANK0) boot_state)
       = [MWrite RESETS_RESET_CLR 0x120]
   \<and> MWrite RESETS_RESET_CLR RESET_IO_BANK0
       \<notin> set (trace (mmio_write RESETS_RESET_CLR (RESET_IO_BANK0 OR RESET_PADS_BANK0)
                 boot_state))"
proof -
  have io: "RESET_IO_BANK0 = 0x20"
    by (simp add: RESET_IO_BANK0_def)
  have ready: "(only_io_bank0_ready 0 AND RESET_IO_BANK0) = RESET_IO_BANK0"
    by (simp add: only_io_bank0_ready_def)
  have "\<forall>k. (only_io_bank0_ready k AND (RESET_IO_BANK0 OR RESET_PADS_BANK0))
      \<noteq> (RESET_IO_BANK0 OR RESET_PADS_BANK0)"
    by (simp add: only_io_bank0_ready_def RESET_IO_BANK0_def RESET_PADS_BANK0_def)
  then have hang: "resets_init only_io_bank0_ready boot_state = None"
    unfolding resets_init_def by (rule resets_poll_never_ready)
  have wr: "trace (mmio_write RESETS_RESET_CLR (RESET_IO_BANK0 OR RESET_PADS_BANK0) boot_state)
       = [MWrite RESETS_RESET_CLR 0x120]"
    by (simp add: mmio_write_def boot_state_def RESET_IO_BANK0_def RESET_PADS_BANK0_def)
  have other: "MWrite RESETS_RESET_CLR RESET_IO_BANK0
       \<notin> set (trace (mmio_write RESETS_RESET_CLR (RESET_IO_BANK0 OR RESET_PADS_BANK0)
                 boot_state))"
    by (simp only: wr) (simp add: io)
  from io ready hang wr other show ?thesis by blast
qed

section \<open>Timer set-up\<close>

lemma systick_init_trace:
  "trace (systick_init s) =
     trace s @ [MWrite SYST_RVR 5999, MWrite SYST_CVR 0, MWrite SYST_CSR 7]"
  by (simp add: systick_init_def mmio_write_def ticks_per_ms_def)

text \<open>
  Claim C7, as the code has it. The reload value is the constant \<open>ticks_per_ms - 1\<close> with
  \<open>ticks_per_ms = 6000\<close>, which is the documented 6,000,000 Hz clock divided by the
  1,000 Hz tick rate, less one; \<^verbatim>\<open>systick_init\<close> takes no clock frequency and no tick
  rate. In every state it writes 5999 to the reload register, then resets the
  current-count register, then sets the clock-source, interrupt-on-zero and enable bits,
  in this order, and leaves the tick counter alone.
\<close>

theorem systick_init_fixed_reload:
  "trace (systick_init s) =
     trace s @ [MWrite SYST_RVR 5999, MWrite SYST_CVR 0, MWrite SYST_CSR 7]
   \<and> tick_count (systick_init s) = tick_count s
   \<and> ticks_per_ms - 1 = spec_reload_value 6000000 1000
   \<and> bit (7 :: u32) 0 \<and> bit (7 :: u32) 1 \<and> bit (7 :: u32) 2"
  by (simp add: systick_init_def mmio_write_def ticks_per_ms_def spec_reload_value_def)

text \<open>
  The claim as stated asks for a reload value that follows the clock configuration. At
  12,000,000 Hz and 1,000 Hz that value is 11999, and \<^verbatim>\<open>systick_init\<close> does not write
  it: it writes 5999 whatever the clock.
\<close>

theorem systick_init_not_injectable:
  "spec_reload_value 12000000 1000 = 11999
   \<and> trace (systick_init boot_state) =
       [MWrite SYST_RVR 5999, MWrite SYST_CVR 0, MWrite SYST_CSR 7]
   \<and> MWrite SYST_RVR (spec_reload_value 12000000 1000)
       \<notin> set (trace (systick_init boot_state))"
  by (simp add: systick_init_def mmio_write_def ticks_per_ms_def spec_reload_value_def
      boot_state_def SYST_RVR_def SYST_CVR_def SYST_CSR_def)

section \<open>The toggle register\<close>

lemma sio_write_toggle_twice:
  "sio_write GPIO_OUT_XOR m (sio_write GPIO_OUT_XOR m h) = h"
  by (simp add: sio_write_def xor.assoc)

lemma sio_run_append: "sio_run (xs @ ys) h = sio_run ys (sio_run xs h)"
  by (simp add: sio_run_def)

text \<open>
  Claim C8. A write of a mask to the toggle register is its own inverse: for every state
  of the outputs and every mask, two such writes with the same mask leave the outputs as
  they were. So do the two toggles that 1000 firings of the ISR make from a counter of 0,
  while the single toggle of 500 firings flips the LED pin.
\<close>

theorem toggle_bits_involution:
  "sio_write GPIO_OUT_XOR m (sio_write GPIO_OUT_XOR m h) = h
   \<and> sio_run [MWrite GPIO_OUT_XOR m, MWrite GPIO_OUT_XOR m] h = h
   \<and> (tick_count s = 0 \<longrightarrow>
        sio_run (trace ((SysTick_Handler ^^ 500) s)) h
          = sio_write GPIO_OUT_XOR LED_MASK (sio_run (trace s) h)
      \<and> sio_run (trace ((SysTick_Handler ^^ 1000) s)) h = sio_run (trace s) h)"
proof -
  have twice: "sio_write GPIO_OUT_XOR m (sio_write GPIO_OUT_XOR m h) = h" for m h
    by (rule sio_write_toggle_twice)
  have run2: "sio_run [MWrite GPIO_OUT_XOR m, MWrite GPIO_OUT_XOR m] h = h"
    by (simp add: sio_run_def twice)
  have isr: "sio_run (trace ((SysTick_Handler ^^ 500) s)) h
          = sio_write GPIO_OUT_XOR LED_MASK (sio_run (trace s) h)
      \<and> sio_run (trace ((SysTick_Handler ^^ 1000) s)) h = sio_run (trace s) h"
    if c: "tick_count s = 0"
  proof -
    have r1: "replicate 1 x = [x]" and r2: "replicate 2 x = [x, x]" for x :: mmio
      by (simp_all add: numeral_2_eq_2)
    from c firings_trace_no_wrap [of s 500]
    have t500: "trace ((SysTick_Handler ^^ 500) s) = trace s @ [MWrite GPIO_OUT_XOR LED_MASK]"
      by (simp add: r1)
    from c firings_trace_no_wrap [of s 1000]
    have t1000: "trace ((SysTick_Handler ^^ 1000) s) =
        trace s @ [MWrite GPIO_OUT_XOR LED_MASK, MWrite GPIO_OUT_XOR LED_MASK]"
      by (simp add: r2)
    show ?thesis
      by (simp add: t500 t1000 sio_run_append) (simp add: sio_run_def twice)
  qed
  from twice run2 isr show ?thesis by blast
qed

theorem toggle_bits_involution_witness:
  "tick_count boot_state = 0
   \<and> sio_run (trace ((SysTick_Handler ^^ 500) boot_state)) sio_reset
       = \<lparr>gpio_out = 0x02000000, gpio_oe = 0\<rparr>
   \<and> sio_run (trace ((SysTick_Handler ^^ 1000) boot_state)) sio_reset = sio_reset"
proof -
  have c: "tick_count boot_state = 0" by (simp add: boot_state_def)
  have e: "sio_run (trace boot_state) sio_reset = sio_reset"
    by (simp add: boot_state_def sio_run_def)
  from toggle_bits_involution [of _ sio_reset boot_state] c
  have "sio_run (trace ((SysTick_Handler ^^ 500) boot_state)) sio_reset
          = sio_write GPIO_OUT_XOR LED_MASK (sio_run (trace boot_state) sio_reset)"
    and "sio_run (trace ((SysTick_Handler ^^ 1000) boot_state)) sio_reset
          = sio_run (trace boot_state) sio_reset"
    by blast+
  then have "sio_run (trace ((SysTick_Handler ^^ 500) boot_state)) sio_reset
          = sio_write GPIO_OUT_XOR LED_MASK sio_reset"
    and "sio_run (trace ((SysTick_Handler ^^ 1000) boot_state)) sio_reset = sio_reset"
    by (simp_all only: e)
  then show ?thesis
    using c by (simp add: sio_write_def sio_reset_def LED_MASK_def LED_PIN_def)
qed

section \<open>Pin initialisation\<close>

lemma gpio_init_trace:
  "trace (gpio_init s) =
     trace s @ [MWrite GPIO25_CTRL FUNCSEL_SIO, MWrite GPIO_OE_SET LED_MASK,
                MWrite GPIO_OUT_XOR LED_MASK]"
  by (simp add: gpio_init_def mmio_write_def)

lemma sio_run_reads: "sio_run (map (\<lambda>i. MRead a (f i)) xs) h = h"
  by (induction xs) (simp_all add: sio_run_def)

lemma filter_writes_reads: "filter (writes_to b) (map (\<lambda>i. MRead a (f i)) xs) = []"
  by (induction xs) simp_all

lemma register_addresses_distinct:
  "GPIO25_CTRL \<noteq> GPIO_OUT_XOR" "GPIO_OE_SET \<noteq> GPIO_OUT_XOR" "RESETS_RESET_CLR \<noteq> GPIO_OUT_XOR"
  "SYST_RVR \<noteq> GPIO_OUT_XOR" "SYST_CVR \<noteq> GPIO_OUT_XOR" "SYST_CSR \<noteq> GPIO_OUT_XOR"
  "GPIO25_CTRL \<noteq> GPIO_OE_SET" "RESETS_RESET_CLR \<noteq> GPIO_OE_SET"
  "SYST_RVR \<noteq> GPIO_OE_SET" "SYST_CVR \<noteq> GPIO_OE_SET" "SYST_CSR \<noteq> GPIO_OE_SET"
  by (simp_all add: mmio_addr_defs)

text \<open>
  Claim C10. \<^verbatim>\<open>gpio_init\<close> writes the function selector, then the output enable, then
  the LED mask to the toggle register: one toggle, which flips the pin's output level.
  When the reset-done poll succeeds, \<^verbatim>\<open>main\<close> reaches its idle loop with the tick counter
  still 0, and of all the register accesses made up to there exactly one is a write to the
  toggle register, the one of \<^verbatim>\<open>gpio_init\<close>; from the post-reset level of zero the pin's
  output bit is then set.
\<close>

theorem gpio_init_toggles_once:
  "trace (gpio_init s) =
     trace s @ [MWrite GPIO25_CTRL FUNCSEL_SIO, MWrite GPIO_OE_SET LED_MASK,
                MWrite GPIO_OUT_XOR LED_MASK]
   \<and> gpio_out (sio_run (trace (gpio_init s)) h) = gpio_out (sio_run (trace s) h) XOR LED_MASK
   \<and> (\<forall>k. (status k AND (RESET_IO_BANK0 OR RESET_PADS_BANK0))
             = (RESET_IO_BANK0 OR RESET_PADS_BANK0)
          \<and> (\<forall>i<k. (status i AND (RESET_IO_BANK0 OR RESET_PADS_BANK0))
             \<noteq> (RESET_IO_BANK0 OR RESET_PADS_BANK0)) \<longrightarrow>
        (\<exists>s'. main_init status boot_state = Some s'
           \<and> tick_count s' = 0
           \<and> trace s' =
               MWrite RESETS_RESET_CLR (RESET_IO_BANK0 OR RESET_PADS_BANK0)
               # map (\<lambda>i. MRead RESETS_RESET_DONE (status i)) [0..<Suc k]
               @ [MWrite GPIO25_CTRL FUNCSEL_SIO, MWrite GPIO_OE_SET LED_MASK,
                  MWrite GPIO_OUT_XOR LED_MASK,
                  MWrite SYST_RVR 5999, MWrite SYST_CVR 0, MWrite SYST_CSR 7]
           \<and> filter (writes_to GPIO_OUT_XOR) (trace s') = [MWrite GPIO_OUT_XOR LED_MASK]
           \<and> gpio_out (sio_run (trace s') sio_reset) = LED_MASK))"
proof -
  have tr: "trace (gpio_init s) =
     trace s @ [MWrite GPIO25_CTRL FUNCSEL_SIO, MWrite GPIO_OE_SET LED_MASK,
                MWrite GPIO_OUT_XOR LED_MASK]"
    by (rule gpio_init_trace)
  have lvl: "gpio_out (sio_run (trace (gpio_init s)) h)
      = gpio_out (sio_run (trace s) h) XOR LED_MASK"
    by (simp add: tr sio_run_append)
      (simp add: sio_run_def sio_write_def register_addresses_distinct)
  have init: "\<exists>s'. main_init status boot_state = Some s'
           \<and> tick_count s' = 0
           \<and> trace s' =
               MWrite RESETS_RESET_CLR (RESET_IO_BANK0 OR RESET_PADS_BANK0)
               # map (\<lambda>i. MRead RESETS_RESET_DONE (status i)) [0..<Suc k]
               @ [MWrite GPIO25_CTRL FUNCSEL_SIO, MWrite GPIO_OE_SET LED_MASK,
                  MWrite GPIO_OUT_XOR LED_MASK,
                  MWrite SYST_RVR 5999, MWrite SYST_CVR 0, MWrite SYST_CSR 7]
           \<and> filter (writes_to GPIO_OUT_XOR) (trace s') = [MWrite GPIO_OUT_XOR LED_MASK]
           \<and> gpio_out (sio_run (trace s') sio_reset) = LED_MASK"
    if ready: "(status k AND (RESET_IO_BANK0 OR RESET_PADS_BANK0))
             = (RESET_IO_BANK0 OR RESET_PADS_BANK0)"
      and busy: "\<forall>i<k. (status i AND (RESET_IO_BANK0 OR RESET_PADS_BANK0))
             \<noteq> (RESET_IO_BANK0 OR RESET_PADS_BANK0)" for k
  proof -
    let ?polls = "map (\<lambda>i. MRead RESETS_RESET_DONE (status i)) [0..<Suc k]"
    let ?s1 = "boot_state\<lparr>trace := trace boot_state
        @ MWrite RESETS_RESET_CLR (RESET_IO_BANK0 OR RESET_PADS_BANK0) # ?polls\<rparr>"
    let ?s' = "systick_init (gpio_init ?s1)"
    have r: "resets_init status boot_state = Some ?s1"
      by (rule resets_init_first_ready [OF ready busy])
    then have m: "main_init status boot_state = Some ?s'"
      by (simp add: main_init_def)
    have tc: "tick_count ?s' = 0"
      by (simp add: systick_init_def gpio_init_def mmio_write_def boot_state_def)
    have full: "trace ?s' =
        MWrite RESETS_RESET_CLR (RESET_IO_BANK0 OR RESET_PADS_BANK0) # ?polls
          @ [MWrite GPIO25_CTRL FUNCSEL_SIO, MWrite GPIO_OE_SET LED_MASK,
             MWrite GPIO_OUT_XOR LED_MASK,
             MWrite SYST_RVR 5999, MWrite SYST_CVR 0, MWrite SYST_CSR 7]"
      by (simp add: systick_init_trace gpio_init_trace boot_state_def)
    have only: "filter (writes_to GPIO_OUT_XOR) (trace ?s') = [MWrite GPIO_OUT_XOR LED_MASK]"
      by (simp only: full filter_append filter.simps filter_writes_reads writes_to.simps
          register_addresses_distinct [symmetric]) simp
    have "sio_run (trace ?s') sio_reset =
        sio_run [MWrite GPIO25_CTRL FUNCSEL_SIO, MWrite GPIO_OE_SET LED_MASK,
             MWrite GPIO_OUT_XOR LED_MASK,
             MWrite SYST_RVR 5999, MWrite SYST_CVR 0, MWrite SYST_CSR 7]
          (sio_run ?polls (sio_run [MWrite RESETS_RESET_CLR (RESET_IO_BANK0 OR RESET_PADS_BANK0)]
             sio_reset))"
      by (simp only: full sio_run_append [symmetric]) simp
    also have "\<dots> = \<lparr>gpio_out = LED_MASK, gpio_oe = LED_MASK\<rparr>"
      by (simp only: sio_run_reads)
        (simp add: sio_run_def sio_write_def register_addresses_distinct sio_reset_def)
    finally have out: "gpio_out (sio_run (trace ?s') sio_reset) = LED_MASK"
      by simp
    from m tc full only out show ?thesis by blast
  qed
  from tr lvl init show ?thesis by blast
qed

theorem gpio_init_toggles_once_witness:
  "(ready_at_third_poll 2 AND (RESET_IO_BANK0 OR RESET_PADS_BANK0))
      = (RESET_IO_BANK0 OR RESET_PADS_BANK0)
   \<and> (\<exists>s'. main_init ready_at_third_poll boot_state = Some s'
        \<and> filter (writes_to GPIO_OUT_XOR) (trace s') = [MWrite 0xD000001C 0x02000000]
        \<and> gpio_out (sio_run (trace s') sio_reset) = 0x02000000)"
proof -
  have r: "(ready_at_third_poll 2 AND (RESET_IO_BANK0 OR RESET_PADS_BANK0))
      = (RESET_IO_BANK0 OR RESET_PADS_BANK0)"
    by (simp add: ready_at_third_poll_def RESET_IO_BANK0_def RESET_PADS_BANK0_def)
  have b: "\<forall>i<2. (ready_at_third_poll i AND (RESET_IO_BANK0 OR RESET_PADS_BANK0))
      \<noteq> (RESET_IO_BANK0 OR RESET_PADS_BANK0)"
    by (simp add: ready_at_third_poll_def RESET_IO_BANK0_def RESET_PADS_BANK0_def)
  have v: "LED_MASK = 0x02000000" "GPIO_OUT_XOR = 0xD000001C"
    by (simp_all add: mmio_addr_defs)
  from gpio_init_toggles_once [of boot_state sio_reset ready_at_third_poll] r b
  have "\<exists>s'. main_init ready_at_third_poll boot_state = Some s'
        \<and> filter (writes_to GPIO_OUT_XOR) (trace s') = [MWrite GPIO_OUT_XOR LED_MASK]
        \<and> gpio_out (sio_run (trace s') sio_reset) = LED_MASK"
    by blast
  with r show ?thesis by (simp only: v) 
qed

section \<open>The reset sequencer's loops\<close>

text \<open>Pointer arithmetic in a region of \<open>n\<close> words that ends at \<open>e\<close>: the stepping
  pointer does not wrap before it reaches \<open>e\<close>.\<close>

lemma ptr_before_end:
  fixes d e :: u32
  assumes "unat e = unat d + 4 * Suc n"
  shows "d < e"
  using assms by (simp add: word_less_nat_alt)

lemma unat_ptr_next:
  fixes d e :: u32
  assumes "unat e = unat d + 4 * Suc n"
  shows "unat (d + 4) = unat d + 4"
proof -
  have "unat e < 2 ^ 32" using unsigned_less [of e] by simp
  with assms have "unat d + 4 < 2 ^ 32" by simp
  then show ?thesis by (simp add: unat_word_ariths)
qed

lemma ptr_next_offset:
  fixes d :: u32
  shows "d + 4 + 4 * of_nat w = d + 4 * of_nat (Suc w)"
  by simp

lemma ptr_offset_neq:
  fixes d e :: u32
  assumes "unat e = unat d + 4 * n" and "0 < w" and "w < n"
  shows "d + 4 * of_nat w \<noteq> d"
proof
  assume "d + 4 * of_nat w = d"
  then have "(of_nat (4 * w) :: u32) = 0" by simp
  then have "2 ^ LENGTH(32) dvd 4 * w"
    by (rule word_of_nat_eq_0_iff [THEN iffD1])
  then have "(4294967296::nat) dvd 4 * w" by simp
  with \<open>0 < w\<close> have "4294967296 \<le> 4 * w" by (intro dvd_imp_le) simp_all
  moreover have "unat e < 2 ^ 32" using unsigned_less [of e] by simp
  with assms have "4 * w < 4294967296" by simp
  ultimately show False by simp
qed

subsection \<open>Copying the initialised data\<close>

lemma copy_loop_inverted:
  assumes "e \<le> d"
  shows "copy_loop s d e m = Some m"
proof -
  from assms have "\<not> d < e" by (simp add: not_less)
  then show ?thesis by (subst copy_loop.simps) simp
qed

lemma copy_loop_result:
  assumes "unat e = unat d + 4 * n"
    and "\<forall>i<n. \<forall>j<n. s + 4 * of_nat i \<noteq> d + 4 * of_nat j"
  shows "\<exists>m'. copy_loop s d e m = Some m'
           \<and> (\<forall>w<n. m' (d + 4 * of_nat w) = m (s + 4 * of_nat w))
           \<and> (\<forall>a. (\<forall>w<n. a \<noteq> d + 4 * of_nat w) \<longrightarrow> m' a = m a)"
  using assms
proof (induction n arbitrary: s d m)
  case 0
  then have "\<not> d < e" by (simp add: word_less_nat_alt)
  then have "copy_loop s d e m = Some m" by (subst copy_loop.simps) simp
  then show ?case by simp
next
  case (Suc n)
  let ?m1 = "m(d := m s)"
  have lt: "d < e" using Suc.prems(1) by (rule ptr_before_end)
  have len: "unat e = unat (d + 4) + 4 * n"
    using Suc.prems(1) unat_ptr_next [OF Suc.prems(1)] by simp
  have apart: "\<forall>i<n. \<forall>j<n. s + 4 + 4 * of_nat i \<noteq> d + 4 + 4 * of_nat j"
  proof (intro allI impI)
    fix i j
    assume "i < n" and "j < n"
    then have "Suc i < Suc n" and "Suc j < Suc n" by simp_all
    with Suc.prems(2) have "s + 4 * of_nat (Suc i) \<noteq> d + 4 * of_nat (Suc j)" by blast
    then show "s + 4 + 4 * of_nat i \<noteq> d + 4 + 4 * of_nat j"
      by (simp only: ptr_next_offset not_False_eq_True)
  qed
  from Suc.IH [OF len apart, of ?m1] obtain m' where
    run: "copy_loop (s + 4) (d + 4) e ?m1 = Some m'"
    and copied: "\<forall>w<n. m' (d + 4 + 4 * of_nat w) = ?m1 (s + 4 + 4 * of_nat w)"
    and frame: "\<forall>a. (\<forall>w<n. a \<noteq> d + 4 + 4 * of_nat w) \<longrightarrow> m' a = ?m1 a"
    by blast
  have step: "copy_loop s d e m = Some m'"
    using lt run by (subst copy_loop.simps) simp
  have first: "m' d = m s"
  proof -
    have "\<forall>w<n. d \<noteq> d + 4 + 4 * of_nat w"
    proof (intro allI impI)
      fix w assume "w < n"
      then have "d + 4 * of_nat (Suc w) \<noteq> d"
        by (intro ptr_offset_neq [OF Suc.prems(1)]) simp_all
      then have "d + 4 + 4 * of_nat w \<noteq> d"
        by (simp only: ptr_next_offset not_False_eq_True)
      then show "d \<noteq> d + 4 + 4 * of_nat w"
        by (rule not_sym)
    qed
    with frame have "m' d = ?m1 d" by blast
    then show ?thesis by simp
  qed
  have rest: "m' (d + 4 * of_nat (Suc w)) = m (s + 4 * of_nat (Suc w))" if "w < n" for w
  proof -
    from that Suc.prems(2) have "s + 4 * of_nat (Suc w) \<noteq> d + 4 * of_nat 0"
      by (metis Suc_less_eq zero_less_Suc)
    then have ne: "s + 4 * of_nat (Suc w) \<noteq> d" by simp
    from copied that have "m' (d + 4 + 4 * of_nat w) = ?m1 (s + 4 + 4 * of_nat w)" by blast
    then have "m' (d + 4 * of_nat (Suc w)) = ?m1 (s + 4 * of_nat (Suc w))"
      by (simp only: ptr_next_offset not_False_eq_True)
    with ne show ?thesis by simp
  qed
  have all: "\<forall>w<Suc n. m' (d + 4 * of_nat w) = m (s + 4 * of_nat w)"
  proof (intro allI impI)
    fix w assume "w < Suc n"
    show "m' (d + 4 * of_nat w) = m (s + 4 * of_nat w)"
    proof (cases w)
      case 0
      with first show ?thesis by simp
    next
      case (Suc v)
      with \<open>w < Suc n\<close> have "v < n" by simp
      from rest [OF this] Suc show ?thesis by simp
    qed
  qed
  have frame': "\<forall>a. (\<forall>w<Suc n. a \<noteq> d + 4 * of_nat w) \<longrightarrow> m' a = m a"
  proof (intro allI impI)
    fix a assume out: "\<forall>w<Suc n. a \<noteq> d + 4 * of_nat w"
    then have "a \<noteq> d + 4 * of_nat 0" by blast
    then have "a \<noteq> d" by simp
    have "\<forall>w<n. a \<noteq> d + 4 + 4 * of_nat w"
    proof (intro allI impI)
      fix w assume "w < n"
      then have "Suc w < Suc n" by simp
      with out have "a \<noteq> d + 4 * of_nat (Suc w)" by blast
      then show "a \<noteq> d + 4 + 4 * of_nat w" by (simp only: ptr_next_offset not_False_eq_True)
    qed
    with frame have "m' a = ?m1 a" by blast
    with \<open>a \<noteq> d\<close> show "m' a = m a" by simp
  qed
  from step all frame' show ?case by blast
qed

text \<open>
  Claim C2. Let the initialised-data region be \<open>n\<close> words long, from \<^verbatim>\<open>_data_start\<close> up
  to \<^verbatim>\<open>_data_end\<close>, and let none of its words be one of the \<open>n\<close> source words at
  \<^verbatim>\<open>_data_flash\<close> (the source is non-volatile storage, the target is working memory).
  Then the copy loop returns, and in the memory it leaves every word offset \<open>w\<close> of the
  region holds the source word of the same offset, which the loop has not changed. An
  empty (or inverted) region is left as it is.
\<close>

theorem copy_loop_copies_data:
  "(data_end L \<le> data_start L \<longrightarrow>
      copy_loop (data_flash L) (data_start L) (data_end L) m = Some m)
   \<and> (unat (data_end L) = unat (data_start L) + 4 * n
      \<and> (\<forall>i<n. \<forall>j<n. data_flash L + 4 * of_nat i \<noteq> data_start L + 4 * of_nat j) \<longrightarrow>
      (\<exists>m'. copy_loop (data_flash L) (data_start L) (data_end L) m = Some m'
         \<and> (\<forall>w<n. m' (data_start L + 4 * of_nat w) = m (data_flash L + 4 * of_nat w)
                 \<and> m' (data_flash L + 4 * of_nat w) = m (data_flash L + 4 * of_nat w))))"
proof (intro conjI impI)
  assume "data_end L \<le> data_start L"
  then show "copy_loop (data_flash L) (data_start L) (data_end L) m = Some m"
    by (rule copy_loop_inverted)
next
  let ?s = "data_flash L" and ?d = "data_start L" and ?e = "data_end L"
  assume "unat ?e = unat ?d + 4 * n
      \<and> (\<forall>i<n. \<forall>j<n. ?s + 4 * of_nat i \<noteq> ?d + 4 * of_nat j)"
  then have len: "unat ?e = unat ?d + 4 * n"
    and apart: "\<forall>i<n. \<forall>j<n. ?s + 4 * of_nat i \<noteq> ?d + 4 * of_nat j"
    by simp_all
  from copy_loop_result [OF len apart, of m] obtain m' where
    run: "copy_loop ?s ?d ?e m = Some m'"
    and copied: "\<forall>w<n. m' (?d + 4 * of_nat w) = m (?s + 4 * of_nat w)"
    and frame: "\<forall>a. (\<forall>w<n. a \<noteq> ?d + 4 * of_nat w) \<longrightarrow> m' a = m a"
    by blast
  have kept: "m' (?s + 4 * of_nat w) = m (?s + 4 * of_nat w)" if "w < n" for w
  proof -
    from apart that have "\<forall>j<n. ?s + 4 * of_nat w \<noteq> ?d + 4 * of_nat j" by blast
    with frame show ?thesis by blast
  qed
  from run copied kept
  show "\<exists>m'. copy_loop ?s ?d ?e m = Some m'
         \<and> (\<forall>w<n. m' (?d + 4 * of_nat w) = m (?s + 4 * of_nat w)
                 \<and> m' (?s + 4 * of_nat w) = m (?s + 4 * of_nat w))"
    by blast
qed

theorem copy_loop_copies_data_witness:
  "unat (data_end sample_layout) = unat (data_start sample_layout) + 4 * 3
   \<and> (\<exists>m'. copy_loop 0x10000200 0x20000000 0x2000000C sample_memory = Some m'
        \<and> m' 0x20000000 = 11 \<and> m' 0x20000004 = 22 \<and> m' 0x20000008 = 33
        \<and> m' 0x10000200 = 11)"
proof -
  have len: "unat (data_end sample_layout) = unat (data_start sample_layout) + 4 * 3"
    by (simp add: sample_layout_def)
  have apart: "\<forall>i<3. \<forall>j<3. data_flash sample_layout + 4 * of_nat i
      \<noteq> data_start sample_layout + 4 * of_nat j"
  proof (intro allI impI)
    fix i j :: nat
    assume "i < 3" and "j < 3"
    then have "i = 0 \<or> i = 1 \<or> i = 2" and "j = 0 \<or> j = 1 \<or> j = 2"
      by arith+
    then show "data_flash sample_layout + 4 * of_nat i
      \<noteq> data_start sample_layout + 4 * of_nat j"
      by (auto simp: sample_layout_def)
  qed
  from copy_loop_copies_data [of sample_layout sample_memory 3] len apart
  obtain m' where
    run: "copy_loop (data_flash sample_layout) (data_start sample_layout)
            (data_end sample_layout) sample_memory = Some m'"
    and copied: "\<forall>w<3. m' (data_start sample_layout + 4 * of_nat w)
                    = sample_memory (data_flash sample_layout + 4 * of_nat w)
                 \<and> m' (data_flash sample_layout + 4 * of_nat w)
                    = sample_memory (data_flash sample_layout + 4 * of_nat w)"
    by blast
  from copied [rule_format, of 0] copied [rule_format, of 1] copied [rule_format, of 2]
  have "m' (data_start sample_layout + 4 * of_nat 0)
        = sample_memory (data_flash sample_layout + 4 * of_nat 0)"
    and "m' (data_start sample_layout + 4 * of_nat 1)
        = sample_memory (data_flash sample_layout + 4 * of_nat 1)"
    and "m' (data_start sample_layout + 4 * of_nat 2)
        = sample_memory (data_flash sample_layout + 4 * of_nat 2)"
    and "m' (data_flash sample_layout + 4 * of_nat 0)
        = sample_memory (data_flash sample_layout + 4 * of_nat 0)"
    by simp_all
  then have "m' 0x20000000 = 11" and "m' 0x20000004 = 22" and "m' 0x20000008 = 33"
    and "m' 0x10000200 = 11"
    by (simp_all add: sample_layout_def sample_memory_def)
  moreover from run
  have "copy_loop 0x10000200 0x20000000 0x2000000C sample_memory = Some m'"
    by (simp add: sample_layout_def)
  ultimately show ?thesis using len by blast
qed

subsection \<open>Zeroing .bss\<close>

lemma zero_loop_result:
  assumes "unat e = unat d + 4 * n"
  shows "zero_loop d e m =
           Some (\<lambda>a. if a \<in> (\<lambda>w. d + 4 * of_nat w) ` {..<n} then 0 else m a)"
  using assms
proof (induction n arbitrary: d m)
  case 0
  then have "\<not> d < e" by (simp add: word_less_nat_alt)
  then show ?case by (subst zero_loop.simps) simp
next
  case (Suc n)
  have lt: "d < e" using Suc.prems by (rule ptr_before_end)
  have "unat e = unat (d + 4) + 4 * n"
    using Suc.prems unat_ptr_next [OF Suc.prems] by simp
  from Suc.IH [OF this]
  have "zero_loop (d + 4) e (m(d := 0)) =
      Some (\<lambda>a. if a \<in> (\<lambda>w. d + 4 + 4 * of_nat w) ` {..<n} then 0 else (m(d := 0)) a)" .
  moreover have "(\<lambda>w. d + 4 * of_nat w) ` {..<Suc n}
      = insert d ((\<lambda>w. d + 4 + 4 * of_nat w) ` {..<n})"
    by (simp only: lessThan_Suc_eq_insert_0 image_insert image_image ptr_next_offset) simp
  ultimately have "zero_loop (d + 4) e (m(d := 0)) =
      Some (\<lambda>a. if a \<in> (\<lambda>w. d + 4 * of_nat w) ` {..<Suc n} then 0 else m a)"
    by (auto simp: fun_eq_iff)
  with lt show ?case by (subst zero_loop.simps) simp
qed

lemma zero_loop_inverted:
  assumes "e \<le> d"
  shows "zero_loop d e m = Some m"
proof -
  from assms have "\<not> d < e" by (simp add: not_less)
  then show ?thesis by (subst zero_loop.simps) simp
qed

text \<open>
  Claim C3. Let the uninitialised-data region be \<open>n\<close> words long, from \<^verbatim>\<open>_bss_start\<close> up
  to \<^verbatim>\<open>_bss_end\<close>. Whatever the memory held before, the zero-fill loop returns, every
  word of the region is zero afterwards (every word offset below \<open>n\<close>, which is every
  word-aligned address from \<^verbatim>\<open>_bss_start\<close> up to \<^verbatim>\<open>_bss_end\<close>), nothing outside the
  region has changed, and running the loop again on the result returns the same memory.
  An empty (or inverted) region is left as it is.
\<close>

theorem zero_loop_zeroes_bss:
  "(bss_end L \<le> bss_start L \<longrightarrow> zero_loop (bss_start L) (bss_end L) m = Some m)
   \<and> (unat (bss_end L) = unat (bss_start L) + 4 * n \<longrightarrow>
      (\<exists>m'. zero_loop (bss_start L) (bss_end L) m = Some m'
         \<and> (\<forall>w<n. m' (bss_start L + 4 * of_nat w) = 0)
         \<and> (\<forall>a. bss_start L \<le> a \<and> a < bss_end L \<and> 4 dvd (unat a - unat (bss_start L))
               \<longrightarrow> m' a = 0)
         \<and> (\<forall>a. a \<notin> (\<lambda>w. bss_start L + 4 * of_nat w) ` {..<n} \<longrightarrow> m' a = m a)
         \<and> zero_loop (bss_start L) (bss_end L) m' = Some m'))"
proof (intro conjI impI)
  assume "bss_end L \<le> bss_start L"
  then show "zero_loop (bss_start L) (bss_end L) m = Some m"
    by (rule zero_loop_inverted)
next
  let ?d = "bss_start L" and ?e = "bss_end L"
  let ?R = "(\<lambda>w. ?d + 4 * of_nat w) ` {..<n}"
  let ?m' = "\<lambda>a. if a \<in> ?R then 0 else m a"
  assume len: "unat ?e = unat ?d + 4 * n"
  have run: "zero_loop ?d ?e m = Some ?m'"
    using len by (rule zero_loop_result)
  have "zero_loop ?d ?e ?m' = Some (\<lambda>a. if a \<in> ?R then 0 else ?m' a)"
    using len by (rule zero_loop_result)
  also have "(\<lambda>a. if a \<in> ?R then 0 else ?m' a) = ?m'"
    by (simp add: fun_eq_iff)
  finally have again: "zero_loop ?d ?e ?m' = Some ?m'" .
  have zero: "\<forall>w<n. ?m' (?d + 4 * of_nat w) = 0"
    by auto
  have inside: "?m' a = 0"
    if "?d \<le> a" and "a < ?e" and "4 dvd (unat a - unat ?d)" for a
  proof -
    from that(3) obtain w where w: "unat a - unat ?d = 4 * w" by (auto simp: dvd_def)
    from that(1) have "unat ?d \<le> unat a" by (simp add: word_le_nat_alt)
    with w have ua: "unat a = unat ?d + 4 * w" by simp
    from that(2) have "unat a < unat ?e" by (simp add: word_less_nat_alt)
    with ua len have "w < n" by simp
    have "a = ?d + 4 * of_nat w"
    proof -
      have "a = of_nat (unat a)" by simp
      also have "\<dots> = ?d + 4 * of_nat w" by (simp only: ua of_nat_add of_nat_mult) simp
      finally show ?thesis .
    qed
    with \<open>w < n\<close> have "a \<in> ?R" by blast
    then show ?thesis by simp
  qed
  have frame: "\<forall>a. a \<notin> ?R \<longrightarrow> ?m' a = m a"
    by simp
  from run zero inside frame again
  show "\<exists>m'. zero_loop ?d ?e m = Some m'
         \<and> (\<forall>w<n. m' (?d + 4 * of_nat w) = 0)
         \<and> (\<forall>a. ?d \<le> a \<and> a < ?e \<and> 4 dvd (unat a - unat ?d) \<longrightarrow> m' a = 0)
         \<and> (\<forall>a. a \<notin> ?R \<longrightarrow> m' a = m a)
         \<and> zero_loop ?d ?e m' = Some m'"
    by (intro exI [of _ ?m']) blast
qed

theorem zero_loop_zeroes_bss_witness:
  "unat (bss_end sample_layout) = unat (bss_start sample_layout) + 4 * 2
   \<and> sample_memory 0x2000000C = 0xDEADBEEF
   \<and> (\<exists>m'. zero_loop 0x2000000C 0x20000014 sample_memory = Some m'
        \<and> m' 0x2000000C = 0 \<and> m' 0x20000010 = 0
        \<and> zero_loop 0x2000000C 0x20000014 m' = Some m')"
proof -
  have len: "unat (bss_end sample_layout) = unat (bss_start sample_layout) + 4 * 2"
    by (simp add: sample_layout_def)
  have pre: "sample_memory 0x2000000C = 0xDEADBEEF"
    by (simp add: sample_memory_def)
  from zero_loop_zeroes_bss [of sample_layout sample_memory 2] len
  obtain m' where
    run: "zero_loop (bss_start sample_layout) (bss_end sample_layout) sample_memory = Some m'"
    and zero: "\<forall>w<2. m' (bss_start sample_layout + 4 * of_nat w) = 0"
    and again: "zero_loop (bss_start sample_layout) (bss_end sample_layout) m' = Some m'"
    by blast
  from zero [rule_format, of 0] zero [rule_format, of 1]
  have "m' (bss_start sample_layout + 4 * of_nat 0) = 0"
    and "m' (bss_start sample_layout + 4 * of_nat 1) = 0"
    by simp_all
  then have "m' 0x2000000C = 0" and "m' 0x20000010 = 0"
    by (simp_all add: sample_layout_def)
  moreover from run again
  have "zero_loop 0x2000000C 0x20000014 sample_memory = Some m'"
    and "zero_loop 0x2000000C 0x20000014 m' = Some m'"
    by (simp_all add: sample_layout_def)
  ultimately show ?thesis using len pre by blast
qed

section \<open>The vector table and the fallback handler\<close>

lemma Default_Handler_hangs: "Default_Handler s = None"
proof (cases "Default_Handler s")
  case None
  then show ?thesis .
next
  case (Some t)
  have "False"
    by (rule Default_Handler.raw_induct [where P = "\<lambda>_ _. False", OF _ Some])
  then show ?thesis ..
qed

lemma length_vector_table: "length vector_table = 42"
  by (simp add: vector_table_def)

lemma length_vector_table_doc: "length vector_table_doc = 42"
  by (simp add: vector_table_doc_def)

lemma doc_numbers: "map fst vector_table_doc = [0..<42]"
  by (simp add: vector_table_doc_def upt_rec)

lemma handler_slots_weak:
  "list_all (\<lambda>v. case v of Zero \<Rightarrow> True
      | Addr_of name \<Rightarrow> map_of weak_aliases name = Some ''Default_Handler'')
     (drop 2 vector_table)"
  by (simp add: vector_table_def weak_aliases_def)

lemma reserved_slots_zero:
  "list_all (\<lambda>(v, d). snd d = Reserved \<longrightarrow> v = Zero) (zip vector_table vector_table_doc)"
  by (simp add: vector_table_def vector_table_doc_def)

lemma linked_nth:
  assumes "k < 42"
  shows "linked_vector_table addr strong ! k = linked_slot addr strong (vector_table ! k)"
  using assms by (simp add: linked_vector_table_def length_vector_table)

lemma handler_slot_weak:
  assumes "1 < k" and "k < 42" and "vector_table ! k = Addr_of name"
  shows "map_of weak_aliases name = Some ''Default_Handler''"
proof -
  from assms(1) obtain j where k: "k = 2 + j" by (auto simp: less_iff_Suc_add)
  with assms(2) have j: "j < length (drop 2 vector_table)"
    by (simp add: length_vector_table)
  have "drop 2 vector_table ! j = vector_table ! k"
    using k by (simp add: length_vector_table)
  with assms(3) have "drop 2 vector_table ! j = Addr_of name" by simp
  moreover from handler_slots_weak j
  have "case drop 2 vector_table ! j of Zero \<Rightarrow> True
      | Addr_of name \<Rightarrow> map_of weak_aliases name = Some ''Default_Handler''"
    by (simp add: list_all_length)
  ultimately show ?thesis by simp
qed

lemma reserved_slot_zero:
  assumes "k < 42" and "snd (vector_table_doc ! k) = Reserved"
  shows "vector_table ! k = Zero"
proof -
  from assms(1) have "k < length (zip vector_table vector_table_doc)"
    by (simp add: length_vector_table length_vector_table_doc)
  with reserved_slots_zero
  have "(\<lambda>(v, d). snd d = Reserved \<longrightarrow> v = Zero) (zip vector_table vector_table_doc ! k)"
    by (simp only: list_all_length)
  with assms show ?thesis
    by (simp add: length_vector_table length_vector_table_doc)
qed

lemma doc_number:
  assumes "k < 42"
  shows "fst (vector_table_doc ! k) = k"
proof -
  from assms have "fst (vector_table_doc ! k) = map fst vector_table_doc ! k"
    by (simp add: length_vector_table_doc)
  also have "\<dots> = k" using assms by (simp only: doc_numbers) simp
  finally show ?thesis .
qed

lemma resolve_plain:
  "resolve strong ''_stack_top'' = ''_stack_top''"
  "resolve strong ''Reset_Handler'' = ''Reset_Handler''"
  by (simp_all add: resolve_def weak_aliases_def)

lemma resolve_weak:
  assumes "map_of weak_aliases name = Some target"
  shows "resolve strong name = (if name \<in> set strong then name else target)"
  using assms by (simp add: resolve_def)

text \<open>
  What holds of every slot of the linked table, whatever the addresses and whichever
  handlers the application defines. The table has 42 slots, numbered as its comments
  number them. Slot 0 holds the initial stack pointer and slot 1 the address of
  \<^verbatim>\<open>Reset_Handler\<close>. Every further slot holds either the zero placeholder or the address
  that override resolution gives to the handler name written in that slot: the
  application's definition of that name if it has one, and \<^verbatim>\<open>Default_Handler\<close> otherwise.
  Every slot that is commented as reserved holds the zero placeholder.
\<close>

lemma vector_table_slots:
  "length (linked_vector_table addr strong) = 42
   \<and> linked_vector_table addr strong ! 0 = addr ''_stack_top''
   \<and> linked_vector_table addr strong ! 1 = addr ''Reset_Handler''
   \<and> (\<forall>k<42. fst (vector_table_doc ! k) = k)
   \<and> (\<forall>k. 1 < k \<and> k < 42 \<longrightarrow>
        vector_table ! k = Zero \<and> linked_vector_table addr strong ! k = 0
      \<or> (\<exists>name. vector_table ! k = Addr_of name
            \<and> map_of weak_aliases name = Some ''Default_Handler''
            \<and> linked_vector_table addr strong ! k = addr (resolve strong name)
            \<and> resolve strong name = (if name \<in> set strong then name else ''Default_Handler'')))
   \<and> (\<forall>k<42. snd (vector_table_doc ! k) = Reserved \<longrightarrow>
        linked_vector_table addr strong ! k = 0)"
proof -
  let ?T = "linked_vector_table addr strong"
  have len: "length ?T = 42"
    by (simp add: linked_vector_table_def length_vector_table)
  have "vector_table ! 0 = Addr_of ''_stack_top''"
    and "vector_table ! 1 = Addr_of ''Reset_Handler''"
    by (simp_all add: vector_table_def)
  then have sp: "?T ! 0 = addr ''_stack_top''" and rst: "?T ! 1 = addr ''Reset_Handler''"
    by (simp_all add: linked_nth linked_slot_def resolve_plain)
  have num: "\<forall>k<42. fst (vector_table_doc ! k) = k"
    by (simp add: doc_number)
  have slot: "vector_table ! k = Zero \<and> ?T ! k = 0
      \<or> (\<exists>name. vector_table ! k = Addr_of name
            \<and> map_of weak_aliases name = Some ''Default_Handler''
            \<and> ?T ! k = addr (resolve strong name)
            \<and> resolve strong name = (if name \<in> set strong then name else ''Default_Handler''))"
    if "1 < k" and "k < 42" for k
  proof (cases "vector_table ! k")
    case Zero
    with that show ?thesis by (simp add: linked_nth linked_slot_def)
  next
    case (Addr_of name)
    from handler_slot_weak [OF that Addr_of]
    have weak: "map_of weak_aliases name = Some ''Default_Handler''" .
    from that Addr_of have "?T ! k = addr (resolve strong name)"
      by (simp add: linked_nth linked_slot_def)
    with Addr_of weak resolve_weak [OF weak, of strong] show ?thesis by blast
  qed
  have res: "?T ! k = 0" if "k < 42" and "snd (vector_table_doc ! k) = Reserved" for k
    using that reserved_slot_zero [OF that] by (simp add: linked_nth linked_slot_def)
  from len sp rst num slot res show ?thesis by blast
qed

lemma vector_table_slots_sample:
  "snd (vector_table_doc ! 4) = Reserved
   \<and> linked_vector_table sample_addr image_strong ! 4 = 0
   \<and> linked_vector_table sample_addr image_strong ! 0 = 0x20042000
   \<and> linked_vector_table sample_addr image_strong ! 2 = 0x100001BD
   \<and> linked_vector_table sample_addr image_strong ! 15 = 0x10000201"
proof -
  have d4: "snd (vector_table_doc ! 4) = Reserved"
    by (simp add: vector_table_doc_def)
  have v2: "vector_table ! 2 = Addr_of ''NMI_Handler''"
    and v15: "vector_table ! 15 = Addr_of ''SysTick_Handler''"
    by (simp_all add: vector_table_def)
  note T = vector_table_slots [of sample_addr image_strong]
  from T d4 have s4: "linked_vector_table sample_addr image_strong ! 4 = 0"
    by simp
  from T have s0: "linked_vector_table sample_addr image_strong ! 0 = 0x20042000"
    by (simp add: sample_addr_def)
  from T have "vector_table ! 2 = Zero \<and> linked_vector_table sample_addr image_strong ! 2 = 0
      \<or> (\<exists>name. vector_table ! 2 = Addr_of name
            \<and> map_of weak_aliases name = Some ''Default_Handler''
            \<and> linked_vector_table sample_addr image_strong ! 2
                = sample_addr (resolve image_strong name)
            \<and> resolve image_strong name
                = (if name \<in> set image_strong then name else ''Default_Handler''))"
    by simp
  with v2 have s2: "linked_vector_table sample_addr image_strong ! 2 = 0x100001BD"
    by (auto simp: image_strong_def sample_addr_def)
  from T have "vector_table ! 15 = Zero \<and> linked_vector_table sample_addr image_strong ! 15 = 0
      \<or> (\<exists>name. vector_table ! 15 = Addr_of name
            \<and> map_of weak_aliases name = Some ''Default_Handler''
            \<and> linked_vector_table sample_addr image_strong ! 15
                = sample_addr (resolve image_strong name)
            \<and> resolve image_strong name
                = (if name \<in> set image_strong then name else ''Default_Handler''))"
    by simp
  with v15 have s15: "linked_vector_table sample_addr image_strong ! 15 = 0x10000201"
    by (auto simp: image_strong_def sample_addr_def)
  from d4 s4 s0 s2 s15 show ?thesis by blast
qed

text \<open>
  Claim C4 asks for the zero placeholder exactly in the slots whose exception or interrupt
  number does not exist on this core. Slot 22 holds the zero placeholder, and so does the
  linked table there, although the table's own comment gives its number to interrupt line
  IRQ6 (XIP) and does not call it reserved: an interrupt line that the table documents has
  neither a handler name nor the fallback handler.
\<close>

theorem vector_table_zero_for_named_irq:
  "vector_table ! 22 = Zero
   \<and> vector_table_doc ! 22 = (22, Source ''IRQ6 XIP'')
   \<and> snd (vector_table_doc ! 22) \<noteq> Reserved
   \<and> linked_vector_table sample_addr image_strong ! 22 = 0"
  by (simp add: vector_table_def vector_table_doc_def linked_vector_table_def linked_slot_def)

text \<open>
  Claim C6. \<^verbatim>\<open>Default_Handler\<close> never returns. For every slot after the reset slot that
  names a handler which the application leaves undefined, the name resolves to
  \<^verbatim>\<open>Default_Handler\<close>, the code entered on that exception number is that of
  \<^verbatim>\<open>Default_Handler\<close>, and control never returns from it.
\<close>

theorem unbound_handler_hangs:
  "Default_Handler s = None
   \<and> (\<forall>k name. 1 < k \<and> k < length vector_table \<and> vector_table ! k = Addr_of name
          \<and> name \<notin> set strong \<longrightarrow>
        resolve strong name = ''Default_Handler''
      \<and> handler_code app (resolve strong name) = Default_Handler
      \<and> invoke app strong k s = None)"
proof -
  have hang: "Default_Handler s = None"
    by (rule Default_Handler_hangs)
  have slot: "resolve strong name = ''Default_Handler''
      \<and> handler_code app (resolve strong name) = Default_Handler
      \<and> invoke app strong k s = None"
    if k: "1 < k" "k < length vector_table" and v: "vector_table ! k = Addr_of name"
      and unbound: "name \<notin> set strong" for k name
  proof -
    from k have "k < 42" by (simp add: length_vector_table)
    from handler_slot_weak [OF k(1) this v]
    have "map_of weak_aliases name = Some ''Default_Handler''" .
    from resolve_weak [OF this, of strong] unbound
    have r: "resolve strong name = ''Default_Handler''" by simp
    then have c: "handler_code app (resolve strong name) = Default_Handler"
      by (simp add: handler_code_def)
    from k v have "invoke app strong k s
        = map_option Inr (handler_code app (resolve strong name) s)"
      by (simp add: invoke_def)
    with c hang have "invoke app strong k s = None" by simp
    with r c show ?thesis by blast
  qed
  from hang slot show ?thesis by blast
qed

theorem unbound_handler_hangs_witness:
  "1 < (2::nat) \<and> 2 < length vector_table
   \<and> vector_table ! 2 = Addr_of ''NMI_Handler''
   \<and> ''NMI_Handler'' \<notin> set image_strong
   \<and> resolve image_strong ''NMI_Handler'' = ''Default_Handler''
   \<and> invoke (image_code sample_layout ready_at_third_poll) image_strong 2
         (sample_memory, boot_state) = None"
proof -
  have k: "1 < (2::nat)" "2 < length vector_table"
    by (simp_all add: vector_table_def)
  have v: "vector_table ! 2 = Addr_of ''NMI_Handler''"
    by (simp add: vector_table_def)
  have u: "''NMI_Handler'' \<notin> set image_strong"
    by (simp add: image_strong_def)
  from unbound_handler_hangs
    [of "(sample_memory, boot_state)" image_strong "image_code sample_layout ready_at_third_poll"]
    k v u
  have "resolve image_strong ''NMI_Handler'' = ''Default_Handler''
      \<and> invoke (image_code sample_layout ready_at_third_poll) image_strong 2
         (sample_memory, boot_state) = None"
    by blast
  with k v u show ?thesis by blast
qed

end
